theory Spec2Isabelle
  imports Complex_Main "HOL-Library.AList" "HOL-Library.Char_ord" "HOL-Library.List_Lexorder"
    "HOL-Library.Sublist"
begin

section \<open>het\_hap\_phaser: data model\<close>

text \<open>
  The embedding follows \<^verbatim>\<open>src/het_hap_phaser.py\<close>. The classes the program imports
  (\<^verbatim>\<open>VcfReader\<close>, \<^verbatim>\<open>VcfRecord\<close>, \<^verbatim>\<open>PedFile\<close>, \<^verbatim>\<open>GtFilter\<close>, \<^verbatim>\<open>GnomadFilter\<close>,
  \<^verbatim>\<open>BedFinder\<close>) are not part of the repository; what the program reads from them is a
  record field or a function parameter here.

  Exceptions are values of \<open>py_error\<close>; a function that can raise returns
  \<open>py_error + 'a\<close> with \<open>Inl\<close> the exception.
\<close>

datatype py_error = KeyError | IndexError | TypeError | ValueError | RuntimeError

text \<open>
  A genotype call \<^verbatim>\<open>gts['GT'][s]\<close> is a tuple of allele indices, \<^verbatim>\<open>None\<close> for a
  missing allele. The program accepts autosomal variants only, so a call is diploid: a
  pair. Allele indices are naturals (0 the reference, 1 the first alternate).
\<close>

type_synonym gt = "nat option \<times> nat option"

text \<open>\<^verbatim>\<open>DECOMPOSED_ALLELES\<close> entries: position, reference and alternate after
  normalisation; compared with \<^verbatim>\<open>==\<close>.\<close>

type_synonym decomposed = "int \<times> string \<times> string"

record vcf_record =
  CHROM :: string
  POS :: int
  ID :: string
  REF :: string
  ALT :: string
  ALLELES :: "string list"
  SPAN :: int
  GT :: "string \<rightharpoonup> gt"
  DECOMPOSED_ALLELES :: "decomposed list"
  INFO_FIELDS :: "string \<rightharpoonup> string"

text \<open>\<^verbatim>\<open>gt_filter.gt_is_ok(gts, sample, allele)\<close>, with \<^verbatim>\<open>gts\<close> the parsed genotypes
  of the record.\<close>

type_synonym gt_filter = "vcf_record \<Rightarrow> string \<Rightarrow> nat \<Rightarrow> bool"

record individual =
  fid :: string
  father :: "string option"
  mother :: "string option"

text \<open>\<^verbatim>\<open>ped_file.individuals\<close>.\<close>

type_synonym ped_file = "string \<rightharpoonup> individual"

text \<open>A row is a Python list of strings, integers, floats and booleans. Floats are
  modelled as exact rationals.\<close>

datatype cell = CStr string | CInt int | CFloat rat | CBool bool

datatype log_event =
    Debug_search_gnomad string int string string
  | Debug_skip_absent_ref
  | Debug_skip_af rat rat
  | Debug_non_biallelic string int
  | Debug_indel string int
  | Warning_de_novo string string int string string
  | Debug_no_alt string int
  | Info_region string int int
  | Info_progress nat nat string int
  | Debug_exclude_bed
  | Debug_too_many_no_calls cell cell
  | Debug_not_all_phased cell cell
  | Debug_not_informative cell cell
  | Info_search_index

section \<open>Tuples of allele indices\<close>

text \<open>\<^verbatim>\<open>x in sgt\<close> for an allele index \<open>x\<close>.\<close>

definition gt_mem :: "nat \<Rightarrow> gt \<Rightarrow> bool" where
  "gt_mem x g = (fst g = Some x \<or> snd g = Some x)"

text \<open>\<^verbatim>\<open>None in sgt\<close>.\<close>

definition gt_has_none :: "gt \<Rightarrow> bool" where
  "gt_has_none g = (fst g = None \<or> snd g = None)"

text \<open>\<^verbatim>\<open>max(sgt)\<close>: comparing \<^verbatim>\<open>None\<close> with anything raises \<^verbatim>\<open>TypeError\<close>.\<close>

definition gt_max :: "gt \<Rightarrow> py_error + nat" where
  "gt_max g = (case g of (Some a, Some b) \<Rightarrow> Inr (max a b) | _ \<Rightarrow> Inl TypeError)"

text \<open>A parent's genotype after lines 195-202 is a tuple or the empty tuple \<^verbatim>\<open>()\<close>;
  \<open>None\<close> stands for \<^verbatim>\<open>()\<close>. \<^verbatim>\<open>x in fgt\<close> is then:\<close>

definition pgt_mem :: "nat \<Rightarrow> gt option \<Rightarrow> bool" where
  "pgt_mem x p = (case p of None \<Rightarrow> False | Some g \<Rightarrow> gt_mem x g)"

text \<open>\<^verbatim>\<open>var.ALLELES[x]\<close>.\<close>

definition allele_at :: "vcf_record \<Rightarrow> nat \<Rightarrow> py_error + string" where
  "allele_at var x = (if x < length (ALLELES var) then Inr (ALLELES var ! x) else Inl IndexError)"

text \<open>\<^verbatim>\<open>str.join(sep, (var.ALLELES[x] for x in sgt))\<close> for a call without \<^verbatim>\<open>None\<close>;
  indexing a list with \<^verbatim>\<open>None\<close> raises \<^verbatim>\<open>TypeError\<close>.\<close>

definition join_alleles :: "string \<Rightarrow> vcf_record \<Rightarrow> gt \<Rightarrow> py_error + string" where
  "join_alleles sep var g =
     (case g of
        (Some a, Some b) \<Rightarrow>
          (case allele_at var a of
             Inl e \<Rightarrow> Inl e
           | Inr x \<Rightarrow> (case allele_at var b of Inl e \<Rightarrow> Inl e | Inr y \<Rightarrow> Inr (x @ sep @ y)))
      | _ \<Rightarrow> Inl TypeError)"

section \<open>parse\_haplotypes: the loop over the samples\<close>

text \<open>The variables the loop of lines 170-247 updates, with the two objects it mutates:
  \<^verbatim>\<open>reverse_allele_order\<close> (a \<^verbatim>\<open>defaultdict(bool)\<close>) and the logger.
  \<^verbatim>\<open>allele_in_phase\<close> is a dict; it is kept as an association list in insertion order.\<close>

record loop_state =
  calls :: "string list"
  alleles :: "(string \<times> string) list"
  allele_in_phase :: "(string \<times> nat) list"
  sample_no_calls :: "string set"
  sample_with_alt :: bool
  reverse_allele_order :: "string \<rightharpoonup> bool"
  logger :: "log_event list"

text \<open>The value of \<^verbatim>\<open>reverse_allele_order[s]\<close>: a missing key reads as \<^verbatim>\<open>False\<close>.\<close>

definition flag :: "(string \<rightharpoonup> bool) \<Rightarrow> string \<Rightarrow> bool" where
  "flag m s = (case m s of None \<Rightarrow> False | Some b \<Rightarrow> b)"

text \<open>Reading \<^verbatim>\<open>reverse_allele_order[s]\<close> stores the default under a missing key.\<close>

definition dd_read :: "(string \<rightharpoonup> bool) \<Rightarrow> string \<Rightarrow> (string \<rightharpoonup> bool)" where
  "dd_read m s = (case m s of None \<Rightarrow> m(s \<mapsto> False) | Some b \<Rightarrow> m)"

text \<open>Lines 173-175 and 179-181.\<close>

definition record_no_call :: "string \<Rightarrow> loop_state \<Rightarrow> loop_state" where
  "record_no_call s st =
     st\<lparr>sample_no_calls := insert s (sample_no_calls st),
        calls := calls st @ [''NoCall''],
        alleles := alleles st @ [(''NoCall'', ''NoCall'')]\<rparr>"

text \<open>Lines 204-206, 221-223 and 233-235: the slash-joined genotype, twice in
  \<^verbatim>\<open>alleles\<close>.\<close>

definition record_unphased :: "vcf_record \<Rightarrow> gt \<Rightarrow> loop_state \<Rightarrow> py_error + loop_state" where
  "record_unphased var sgt st =
     (case join_alleles ''/'' var sgt of
        Inl e \<Rightarrow> Inl e
      | Inr c \<Rightarrow> Inr (st\<lparr>calls := calls st @ [c], alleles := alleles st @ [(c, c)]\<rparr>))"

text \<open>Lines 195-198 (and 199-202 for the mother): the parent's genotype, or \<^verbatim>\<open>()\<close>.\<close>

definition parent_gt :: "gt_filter \<Rightarrow> vcf_record \<Rightarrow> string option \<Rightarrow> py_error + gt option" where
  "parent_gt gt_is_ok var p =
     (case p of
        None \<Rightarrow> Inr None
      | Some f \<Rightarrow>
          (case GT var f of
             None \<Rightarrow> Inl KeyError
           | Some fgt \<Rightarrow>
               if gt_has_none fgt then Inr None
               else (case gt_max fgt of
                       Inl e \<Rightarrow> Inl e
                     | Inr a \<Rightarrow> if \<not> gt_is_ok var f a then Inr None else Inr (Some fgt))))"

text \<open>Lines 208-214 (and 215-219 with the parents swapped): the allele index this parent
  transmitted, \<open>None\<close> while undetermined.\<close>

definition transmitted :: "gt option \<Rightarrow> gt option \<Rightarrow> nat option" where
  "transmitted fgt mgt =
     (if pgt_mem 1 fgt then
        (if \<not> pgt_mem 0 fgt \<or> (\<not> pgt_mem 1 mgt \<and> mgt \<noteq> None) then Some 1 else None)
      else if fgt \<noteq> None then Some 0
      else None)"

text \<open>Lines 225-228, reached when \<open>pat\<close> and \<open>mat\<close> are not both \<^verbatim>\<open>None\<close>:
  \<^verbatim>\<open>int(pat == 0)\<close> is 1 for 0 and 0 otherwise. The result is \<open>(pat, mat)\<close>.\<close>

definition infer_other :: "nat option \<Rightarrow> nat option \<Rightarrow> nat \<times> nat" where
  "infer_other pat mat =
     (case (pat, mat) of
        (Some p, None) \<Rightarrow> (p, if p = 0 then 1 else 0)
      | (None, Some m) \<Rightarrow> (if m = 0 then 1 else 0, m)
      | (Some p, Some m) \<Rightarrow> (p, m)
      | (None, None) \<Rightarrow> (0, 0))"

text \<open>Lines 237-247: a phase is established.\<close>

definition record_phased ::
  "vcf_record \<Rightarrow> bool \<Rightarrow> string \<Rightarrow> nat \<Rightarrow> nat \<Rightarrow> loop_state \<Rightarrow> py_error + loop_state" where
  "record_phased var index_var s pat mat st =
     (let r1 = (if index_var \<and> mat = 1 \<and> pat = 0
                then (reverse_allele_order st)(s \<mapsto> True) else reverse_allele_order st);
          rev = flag r1 s;
          r2 = dd_read r1 s;
          a1 = (if rev then mat else pat);
          a2 = (if rev then pat else mat)
      in case allele_at var a1 of
           Inl e \<Rightarrow> Inl e
         | Inr x \<Rightarrow>
            (case allele_at var a2 of
               Inl e \<Rightarrow> Inl e
             | Inr y \<Rightarrow>
                 Inr (st\<lparr>reverse_allele_order := r2,
                         allele_in_phase := AList.update s a1 (allele_in_phase st),
                         calls := calls st @ [x @ ''|'' @ y],
                         alleles := alleles st @ [(x, y)]\<rparr>)))"

text \<open>Lines 190-247: a heterozygous call.\<close>

definition phase_het ::
  "gt_filter \<Rightarrow> vcf_record \<Rightarrow> ped_file \<Rightarrow> bool \<Rightarrow> string \<Rightarrow> gt \<Rightarrow> loop_state \<Rightarrow> py_error + loop_state" where
  "phase_het gt_is_ok var ped index_var s sgt st =
     (case gt_max sgt of
        Inl e \<Rightarrow> Inl e
      | Inr allele \<Rightarrow>
     (case ped s of
        None \<Rightarrow> Inl KeyError
      | Some ind \<Rightarrow>
     (case parent_gt gt_is_ok var (father ind) of
        Inl e \<Rightarrow> Inl e
      | Inr fgt \<Rightarrow>
     (case parent_gt gt_is_ok var (mother ind) of
        Inl e \<Rightarrow> Inl e
      | Inr mgt \<Rightarrow>
          if fgt = None \<and> mgt = None then record_unphased var sgt st
          else
            let pat = transmitted fgt mgt; mat = transmitted mgt fgt in
            if mat = None \<and> pat = None then record_unphased var sgt st
            else
              let (pat', mat') = infer_other pat mat in
              if mat' = pat' then
                record_unphased var sgt
                  (st\<lparr>logger := logger st @
                       [Warning_de_novo s (CHROM var) (POS var) (REF var) (ALT var)]\<rparr>)
              else record_phased var index_var s pat' mat' st))))"

text \<open>Lines 171-247: the body of the loop for one sample.\<close>

definition sample_step ::
  "gt_filter \<Rightarrow> vcf_record \<Rightarrow> ped_file \<Rightarrow> bool \<Rightarrow> string \<Rightarrow> loop_state \<Rightarrow> py_error + loop_state" where
  "sample_step gt_is_ok var ped index_var s st =
     (if \<not> gt_is_ok var s 0 \<or> \<not> gt_is_ok var s 1 then Inr (record_no_call s st)
      else case GT var s of
        None \<Rightarrow> Inl KeyError
      | Some sgt \<Rightarrow>
          if fst sgt = snd sgt \<and> gt_has_none sgt then Inr (record_no_call s st)
          else
            let st1 = (if gt_mem 1 sgt then st\<lparr>sample_with_alt := True\<rparr> else st) in
            if fst sgt = snd sgt then
              (case join_alleles ''|'' var sgt of
                 Inl e \<Rightarrow> Inl e
               | Inr c \<Rightarrow>
                   (case sgt of
                      (Some a, Some b) \<Rightarrow>
                        (case allele_at var a of
                           Inl e \<Rightarrow> Inl e
                         | Inr x \<Rightarrow>
                            (case allele_at var b of
                               Inl e \<Rightarrow> Inl e
                             | Inr y \<Rightarrow>
                                 Inr (st1\<lparr>calls := calls st1 @ [c],
                                          alleles := alleles st1 @ [(x, y)],
                                          allele_in_phase :=
                                            AList.update s a (allele_in_phase st1)\<rparr>)))
                    | _ \<Rightarrow> Inl TypeError))
            else phase_het gt_is_ok var ped index_var s sgt st1)"

fun sample_loop ::
  "gt_filter \<Rightarrow> vcf_record \<Rightarrow> ped_file \<Rightarrow> bool \<Rightarrow> string list \<Rightarrow> loop_state \<Rightarrow> py_error + loop_state" where
  "sample_loop gt_is_ok var ped index_var [] st = Inr st"
| "sample_loop gt_is_ok var ped index_var (s # ss) st =
     (case sample_step gt_is_ok var ped index_var s st of
        Inl e \<Rightarrow> Inl e
      | Inr st' \<Rightarrow> sample_loop gt_is_ok var ped index_var ss st')"

text \<open>The conditions of lines 171-172 and 178 under which the loop records the sample as
  a no-call: a call that fails the filter for allele 0 or for allele 1, or a fully
  missing genotype.\<close>

definition is_no_call :: "gt_filter \<Rightarrow> vcf_record \<Rightarrow> string \<Rightarrow> bool" where
  "is_no_call gt_is_ok var s =
     (\<not> gt_is_ok var s 0 \<or> \<not> gt_is_ok var s 1
      \<or> (case GT var s of None \<Rightarrow> False | Some sgt \<Rightarrow> fst sgt = snd sgt \<and> gt_has_none sgt))"

section \<open>parse\_haplotypes: background counts, tallies and the row\<close>

text \<open>\<^verbatim>\<open>counts = {"0/0": 0, "0/1": 0, "1/1": 0}\<close>; any other key raises
  \<^verbatim>\<open>KeyError\<close> at \<^verbatim>\<open>+=\<close>.\<close>

record gt_counts =
  hom_ref :: nat
  het :: nat
  hom_alt :: nat

text \<open>Lines 253-256 for one unrelated sample; the key is the sorted call.\<close>

definition count_unrelated ::
  "gt_filter \<Rightarrow> vcf_record \<Rightarrow> string \<Rightarrow> gt_counts \<Rightarrow> py_error + gt_counts" where
  "count_unrelated gt_is_ok var u c =
     (case GT var u of
        None \<Rightarrow> Inl KeyError
      | Some g \<Rightarrow>
          (case g of
             (Some a, Some b) \<Rightarrow>
               if gt_is_ok var u (max a b) then
                 (let k = (min a b, max a b) in
                  if k = (0, 0) then Inr (c\<lparr>hom_ref := hom_ref c + 1\<rparr>)
                  else if k = (0, 1) then Inr (c\<lparr>het := het c + 1\<rparr>)
                  else if k = (1, 1) then Inr (c\<lparr>hom_alt := hom_alt c + 1\<rparr>)
                  else Inl KeyError)
               else Inr c
           | _ \<Rightarrow> Inr c))"

fun unrelated_loop ::
  "gt_filter \<Rightarrow> vcf_record \<Rightarrow> string list \<Rightarrow> gt_counts \<Rightarrow> py_error + gt_counts" where
  "unrelated_loop gt_is_ok var [] c = Inr c"
| "unrelated_loop gt_is_ok var (u # us) c =
     (case count_unrelated gt_is_ok var u c of
        Inl e \<Rightarrow> Inl e
      | Inr c' \<Rightarrow> unrelated_loop gt_is_ok var us c')"

text \<open>Lines 258-269: \<open>(n_in_phase, n_compat, p_allele)\<close> from
  \<^verbatim>\<open>phased = list(allele_in_phase.values())\<close>.\<close>

definition phase_tally :: "nat list \<Rightarrow> nat \<times> nat \<times> nat option" where
  "phase_tally phased =
     (if phased \<noteq> [] then
        (let ref_phase = count_list phased 0;
             alt_phase = length phased - ref_phase;
             p_allele = (if ref_phase > alt_phase then Some 0
                         else if alt_phase > ref_phase then Some 1 else None);
             n_in_phase = max ref_phase alt_phase
         in (n_in_phase, n_in_phase, p_allele))
      else (0, 0, None))"

text \<open>Line 273: does the sample add to \<^verbatim>\<open>n_compat\<close>?\<close>

definition is_compat :: "nat \<Rightarrow> gt \<Rightarrow> string \<Rightarrow> string set \<Rightarrow> bool" where
  "is_compat p_allele g s no_calls = (gt_mem p_allele g \<or> s \<in> no_calls)"

text \<open>Lines 270-274: the samples that are not keys of \<^verbatim>\<open>allele_in_phase\<close>.\<close>

fun compat_loop ::
  "vcf_record \<Rightarrow> (string \<times> nat) list \<Rightarrow> string set \<Rightarrow> nat option \<Rightarrow> string list \<Rightarrow> nat
     \<Rightarrow> py_error + nat" where
  "compat_loop var aip no_calls p_allele [] n_compat = Inr n_compat"
| "compat_loop var aip no_calls p_allele (s # ss) n_compat =
     (if map_of aip s \<noteq> None then compat_loop var aip no_calls p_allele ss n_compat
      else case p_allele of
         None \<Rightarrow> compat_loop var aip no_calls p_allele ss n_compat
       | Some p \<Rightarrow>
          (case GT var s of
             None \<Rightarrow> Inl KeyError
           | Some g \<Rightarrow>
               if is_compat p g s no_calls
               then compat_loop var aip no_calls p_allele ss (n_compat + 1)
               else compat_loop var aip no_calls p_allele ss n_compat))"

text \<open>Lines 276-279: the HAP cell.\<close>

definition hap_cell :: "vcf_record \<Rightarrow> nat \<Rightarrow> nat option \<Rightarrow> py_error + cell" where
  "hap_cell var n_in_phase p_allele =
     (case p_allele of
        Some p \<Rightarrow>
          if n_in_phase \<noteq> 0 then
            (case allele_at var p of Inl e \<Rightarrow> Inl e | Inr a \<Rightarrow> Inr (CStr a))
          else Inr (CStr ''?'')
      | None \<Rightarrow> Inr (CStr ''?''))"

text \<open>Lines 282-286: the sample columns.\<close>

definition sample_cells :: "bool \<Rightarrow> loop_state \<Rightarrow> cell list" where
  "sample_cells output_alleles st =
     (if output_alleles then concat (map (\<lambda>(x, y). [CStr x, CStr y]) (alleles st))
      else map CStr (calls st))"

text \<open>Lines 287-292: \<^verbatim>\<open>an\<close> and \<^verbatim>\<open>af\<close>; \<^verbatim>\<open>af\<close> stays the integer 0 when
  \<^verbatim>\<open>an\<close> is 0.\<close>

definition background_cells :: "gt_counts \<Rightarrow> cell list" where
  "background_cells c =
     (let an = 2 * (hom_ref c + het c + hom_alt c);
          ac = het c + 2 * hom_alt c
      in [CInt (int an),
          if an \<noteq> 0 then CFloat (Fract (int ac) (int an)) else CInt 0])"

definition init_state :: "(string \<rightharpoonup> bool) \<Rightarrow> log_event list \<Rightarrow> loop_state" where
  "init_state rao lg =
     \<lparr>calls = [], alleles = [], allele_in_phase = [], sample_no_calls = {},
      sample_with_alt = False, reverse_allele_order = rao, logger = lg\<rparr>"

text \<open>The function returns the row or \<^verbatim>\<open>None\<close>, with the two mutated objects:
  \<^verbatim>\<open>reverse_allele_order\<close> and the logger.\<close>

definition parse_haplotypes ::
  "vcf_record \<Rightarrow> string list \<Rightarrow> string list \<Rightarrow> ped_file \<Rightarrow> gt_filter \<Rightarrow> log_event list
     \<Rightarrow> (string \<rightharpoonup> bool) \<Rightarrow> bool \<Rightarrow> bool
     \<Rightarrow> py_error + (cell list option \<times> (string \<rightharpoonup> bool) \<times> log_event list)" where
  "parse_haplotypes var samples unrelateds ped gt_is_ok lg rao output_alleles index_var =
     (if length (ALLELES var) \<noteq> 2 then
        Inr (None, rao, lg @ [Debug_non_biallelic (CHROM var) (POS var)])
      else if length (ALLELES var ! 0) \<noteq> length (ALLELES var ! 1) then
        Inr (None, rao, lg @ [Debug_indel (CHROM var) (POS var)])
      else
        case sample_loop gt_is_ok var ped index_var samples (init_state rao lg) of
          Inl e \<Rightarrow> Inl e
        | Inr st \<Rightarrow>
            if \<not> sample_with_alt st then
              Inr (None, reverse_allele_order st,
                   logger st @ [Debug_no_alt (CHROM var) (POS var)])
            else
              case unrelated_loop gt_is_ok var unrelateds
                     \<lparr>hom_ref = 0, het = 0, hom_alt = 0\<rparr> of
                Inl e \<Rightarrow> Inl e
              | Inr counts \<Rightarrow>
                  let phased = map snd (allele_in_phase st);
                      (n_in_phase, n0, p_allele) = phase_tally phased
                  in case compat_loop var (allele_in_phase st) (sample_no_calls st)
                            p_allele samples n0 of
                       Inl e \<Rightarrow> Inl e
                     | Inr n_compat \<Rightarrow>
                        (case hap_cell var n_in_phase p_allele of
                           Inl e \<Rightarrow> Inl e
                         | Inr hap \<Rightarrow>
                             Inr (Some ([CStr (CHROM var), CInt (POS var), CStr (ID var),
                                         CStr (REF var), CStr (ALT var), hap,
                                         CInt (int n_in_phase), CInt (int n_compat)]
                                        @ sample_cells output_alleles st
                                        @ background_cells counts
                                        @ [CBool (phased \<noteq> []),
                                           CBool (length phased = length samples),
                                           CInt (int (card (sample_no_calls st)))]),
                                  reverse_allele_order st, logger st)))"

section \<open>search\_gnomad and output\_row\<close>

text \<open>\<^verbatim>\<open>xs[i]\<close> on a Python list.\<close>

definition list_at :: "'a list \<Rightarrow> nat \<Rightarrow> py_error + 'a" where
  "list_at xs i = (if i < length xs then Inr (xs ! i) else Inl IndexError)"

text \<open>\<^verbatim>\<open>s.split(',')\<close>.\<close>

fun split_comma :: "string \<Rightarrow> string list" where
  "split_comma [] = [[]]"
| "split_comma (c # cs) =
     (if c = CHR '','' then [] # split_comma cs
      else case split_comma cs of [] \<Rightarrow> [[c]] | w # ws \<Rightarrow> (c # w) # ws)"

text \<open>\<^verbatim>\<open>h.INFO_FIELDS[key].split(',')[i]\<close>.\<close>

definition info_at :: "vcf_record \<Rightarrow> string \<Rightarrow> nat \<Rightarrow> py_error + string" where
  "info_at h key i =
     (case INFO_FIELDS h key of
        None \<Rightarrow> Inl KeyError
      | Some v \<Rightarrow> list_at (split_comma v) i)"

text \<open>A frequency database is its \<^verbatim>\<open>get_overlapping_records\<close>.\<close>

type_synonym gnomad_reader = "vcf_record \<Rightarrow> vcf_record list"

text \<open>Lines 141-146: the inner loop over \<^verbatim>\<open>range(len(h.DECOMPOSED_ALLELES))\<close>, from
  index \<open>i\<close> on; \<open>None\<close> when the loop ends without returning.\<close>

fun search_alleles ::
  "vcf_record \<Rightarrow> vcf_record \<Rightarrow> string \<Rightarrow> nat \<Rightarrow> decomposed list
     \<Rightarrow> py_error + (string \<times> string \<times> string) option" where
  "search_alleles var h pop i [] = Inr None"
| "search_alleles var h pop i (d # ds) =
     (case list_at (DECOMPOSED_ALLELES var) 0 of
        Inl e \<Rightarrow> Inl e
      | Inr v0 \<Rightarrow>
          if v0 = d then
            (case info_at h ''AF'' i of
               Inl e \<Rightarrow> Inl e
             | Inr af \<Rightarrow>
                (case info_at h (''AF_'' @ pop) i of
                   Inl e \<Rightarrow> Inl e
                 | Inr p_af \<Rightarrow>
                    (case info_at h ''POPMAX'' i of
                       Inl e \<Rightarrow> Inl e
                     | Inr popmax \<Rightarrow> Inr (Some (af, p_af, popmax)))))
          else search_alleles var h pop (i + 1) ds)"

fun search_hits ::
  "vcf_record \<Rightarrow> string \<Rightarrow> vcf_record list \<Rightarrow> py_error + (string \<times> string \<times> string)" where
  "search_hits var pop [] = Inr (''.'', ''.'', ''.'')"
| "search_hits var pop (h # hs) =
     (case search_alleles var h pop 0 (DECOMPOSED_ALLELES h) of
        Inl e \<Rightarrow> Inl e
      | Inr (Some r) \<Rightarrow> Inr r
      | Inr None \<Rightarrow> search_hits var pop hs)"

definition search_gnomad ::
  "vcf_record \<Rightarrow> gnomad_reader \<Rightarrow> string \<Rightarrow> py_error + (string \<times> string \<times> string)" where
  "search_gnomad var gnomad_reader pop = search_hits var pop (gnomad_reader var)"

text \<open>Lines 127-130: \<open>False\<close> is \<^verbatim>\<open>return 0\<close>.\<close>

definition other_af_check ::
  "rat \<Rightarrow> rat \<Rightarrow> log_event list \<Rightarrow> py_error + (bool \<times> log_event list)" where
  "other_af_check other_af min_af lg =
     (if other_af < min_af then Inr (False, lg @ [Debug_skip_af other_af min_af])
      else Inr (True, lg))"

text \<open>Lines 115-126: the frequency of the allele that is not the haplotype allele, from
  one database's \<^verbatim>\<open>af\<close> and \<^verbatim>\<open>row[5]\<close>. \<^verbatim>\<open>float\<close> is Python's; it is a
  parameter, with \<open>None\<close> for \<^verbatim>\<open>ValueError\<close>. The result \<open>None\<close> is the
  \<^verbatim>\<open>return 0\<close> of line 120.\<close>

definition other_af ::
  "(string \<Rightarrow> rat option) \<Rightarrow> cell \<Rightarrow> vcf_record \<Rightarrow> string \<Rightarrow> py_error + rat option" where
  "other_af float_of r5 var af =
     (if af = ''.'' then
        (if r5 = CStr (REF var) then Inr None else Inr (Some 1))
      else if r5 = CStr (REF var) then
        (case float_of af of None \<Rightarrow> Inl ValueError | Some x \<Rightarrow> Inr (Some x))
      else
        (case float_of af of None \<Rightarrow> Inl ValueError | Some x \<Rightarrow> Inr (Some (1 - x))))"

text \<open>Lines 112-130 for one database. \<^verbatim>\<open>samples\<close> may be \<^verbatim>\<open>None\<close>, as in the call
  for the index row. \<open>False\<close> is \<^verbatim>\<open>return 0\<close>.\<close>

definition min_af_filter ::
  "(string \<Rightarrow> rat option) \<Rightarrow> cell list \<Rightarrow> vcf_record \<Rightarrow> string \<Rightarrow> rat option
     \<Rightarrow> string list option \<Rightarrow> log_event list \<Rightarrow> py_error + (bool \<times> log_event list)" where
  "min_af_filter float_of row var af min_af samples lg =
     (case min_af of
        None \<Rightarrow> Inr (True, lg)
      | Some t \<Rightarrow>
     (case list_at row 7 of
        Inl e \<Rightarrow> Inl e
      | Inr r7 \<Rightarrow>
     (case samples of
        None \<Rightarrow> Inl TypeError
      | Some ss \<Rightarrow>
          if r7 = CInt (int (length ss)) then
            (case list_at row 5 of
               Inl e \<Rightarrow> Inl e
             | Inr r5 \<Rightarrow>
                (case other_af float_of r5 var af of
                   Inl e \<Rightarrow> Inl e
                 | Inr None \<Rightarrow> Inr (False, lg @ [Debug_skip_absent_ref])
                 | Inr (Some x) \<Rightarrow> other_af_check x t lg))
          else Inr (True, lg))))"


text \<open>Lines 131-133: \<^verbatim>\<open>max_af < af\<close> compares two strings.\<close>

definition keep_max ::
  "string \<times> string \<times> string \<Rightarrow> string \<times> string \<times> string \<Rightarrow> string \<times> string \<times> string" where
  "keep_max mx r =
     (if fst r \<noteq> ''.'' then (if fst mx = ''.'' \<or> fst mx < fst r then r else mx) else mx)"

text \<open>Lines 110-133: the loop over the databases; \<open>None\<close> is \<^verbatim>\<open>return 0\<close>.\<close>

fun reader_loop ::
  "(string \<Rightarrow> rat option) \<Rightarrow> cell list \<Rightarrow> vcf_record \<Rightarrow> gnomad_reader list \<Rightarrow> rat option
     \<Rightarrow> string list option \<Rightarrow> string \<Rightarrow> string \<times> string \<times> string \<Rightarrow> log_event list
     \<Rightarrow> py_error + ((string \<times> string \<times> string) option \<times> log_event list)" where
  "reader_loop float_of row var [] min_af samples pop mx lg = Inr (Some mx, lg)"
| "reader_loop float_of row var (reader # readers) min_af samples pop mx lg =
     (case search_gnomad var reader pop of
        Inl e \<Rightarrow> Inl e
      | Inr r \<Rightarrow>
          (case min_af_filter float_of row var (fst r) min_af samples lg of
             Inl e \<Rightarrow> Inl e
           | Inr (False, lg') \<Rightarrow> Inr (None, lg')
           | Inr (True, lg') \<Rightarrow>
               reader_loop float_of row var readers min_af samples pop (keep_max mx r) lg'))"

text \<open>The output stream is the list of the lines written; a line is the list of the cells
  that \<^verbatim>\<open>str.join("\t", ...)\<close> joins. The result is the return value (0 or 1), the
  stream and the logger.\<close>

definition output_row ::
  "(string \<Rightarrow> rat option) \<Rightarrow> cell list \<Rightarrow> cell list list \<Rightarrow> vcf_record \<Rightarrow> gnomad_reader list
     \<Rightarrow> rat option \<Rightarrow> log_event list \<Rightarrow> string list option \<Rightarrow> string
     \<Rightarrow> py_error + (nat \<times> cell list list \<times> log_event list)" where
  "output_row float_of row output var gnomad_readers min_af lg samples gnomad_pop =
     (if gnomad_readers \<noteq> [] then
        (case reader_loop float_of row var gnomad_readers min_af samples gnomad_pop
                (''.'', ''.'', ''.'')
                (lg @ [Debug_search_gnomad (CHROM var) (POS var) (REF var) (ALT var)]) of
           Inl e \<Rightarrow> Inl e
         | Inr (None, lg') \<Rightarrow> Inr (0, output, lg')
         | Inr (Some (max_af, max_popmax, max_pop), lg') \<Rightarrow>
             Inr (1, output @ [row @ [CStr max_af, CStr max_popmax, CStr max_pop]], lg'))
      else Inr (1, output @ [row], lg))"

section \<open>parse\_region\<close>

text \<open>The record source: the samples of the header, and the records that iterating
  \<^verbatim>\<open>vcf.parser\<close> yields after \<^verbatim>\<open>vcf.set_region(chrom, start, end)\<close>.\<close>

record vcf_reader =
  header_samples :: "string list"
  set_region :: "string \<Rightarrow> int \<Rightarrow> int \<Rightarrow> vcf_record list"

text \<open>\<^verbatim>\<open>avoid_bed.fetch(chrom, pos, span)\<close>, when a BED file was given.\<close>

type_synonym bed_finder = "(string \<Rightarrow> int \<Rightarrow> int \<Rightarrow> bool) option"

text \<open>\<^verbatim>\<open>row.pop()\<close>: the last cell and the shorter row.\<close>

definition pop_cell :: "cell list \<Rightarrow> py_error + (cell \<times> cell list)" where
  "pop_cell row = (if row = [] then Inl IndexError else Inr (last row, butlast row))"

text \<open>The truth value of a cell in \<^verbatim>\<open>if x:\<close>.\<close>

fun truthy :: "cell \<Rightarrow> bool" where
  "truthy (CStr x) = (x \<noteq> [])"
| "truthy (CInt i) = (i \<noteq> 0)"
| "truthy (CFloat q) = (q \<noteq> 0)"
| "truthy (CBool b) = b"

text \<open>\<^verbatim>\<open>no_calls > max_no_calls\<close> with an integer on the right; a string on the left
  raises \<^verbatim>\<open>TypeError\<close>.\<close>

fun cell_gt :: "cell \<Rightarrow> int \<Rightarrow> py_error + bool" where
  "cell_gt (CStr x) m = Inl TypeError"
| "cell_gt (CInt i) m = Inr (i > m)"
| "cell_gt (CFloat q) m = Inr (q > of_int m)"
| "cell_gt (CBool b) m = Inr ((if b then 1 else 0) > m)"

text \<open>The configuration of a walk, fixed over the loop.\<close>

record config =
  cfg_samples :: "string list"
  cfg_unrelateds :: "string list"
  cfg_ped_file :: ped_file
  cfg_gt_filter :: gt_filter
  cfg_informative_only :: bool
  cfg_phased_in_all :: bool
  cfg_output_alleles :: bool
  cfg_max_no_calls :: "int option"
  cfg_gnomad_readers :: "gnomad_reader list"
  cfg_avoid_bed :: bed_finder
  cfg_min_other_allele_freq :: "rat option"
  cfg_gnomad_pop :: string
  cfg_float :: "string \<Rightarrow> rat option"

text \<open>What the loop of lines 451-492 updates: the counters \<^verbatim>\<open>n\<close> and \<^verbatim>\<open>w\<close>, the
  output stream, \<^verbatim>\<open>reverse_alleles\<close> and the logger.\<close>

record walk_state =
  ws_n :: nat
  ws_w :: nat
  ws_output :: "cell list list"
  ws_reverse :: "string \<rightharpoonup> bool"
  ws_logger :: "log_event list"

text \<open>Lines 472-491: the three output policies, \<^verbatim>\<open>w += output_row(...)\<close>.\<close>

definition route_row ::
  "config \<Rightarrow> vcf_record \<Rightarrow> cell list \<Rightarrow> cell \<Rightarrow> cell \<Rightarrow> walk_state \<Rightarrow> py_error + walk_state" where
  "route_row cfg var row all_phased informative ws =
     (let write =
            (case output_row (cfg_float cfg) row (ws_output ws) var (cfg_gnomad_readers cfg)
                    (cfg_min_other_allele_freq cfg) (ws_logger ws) (Some (cfg_samples cfg))
                    (cfg_gnomad_pop cfg) of
               Inl e \<Rightarrow> Inl e
             | Inr (k, out, lg) \<Rightarrow>
                 Inr (ws\<lparr>ws_w := ws_w ws + k, ws_output := out, ws_logger := lg\<rparr>))
      in
      if cfg_phased_in_all cfg then
        (if truthy all_phased then write
         else (case list_at row 0 of
                 Inl e \<Rightarrow> Inl e
               | Inr r0 \<Rightarrow>
                  (case list_at row 1 of
                     Inl e \<Rightarrow> Inl e
                   | Inr r1 \<Rightarrow>
                       Inr (ws\<lparr>ws_logger := ws_logger ws @ [Debug_not_all_phased r0 r1]\<rparr>))))
      else if cfg_informative_only cfg then
        (if truthy informative then write
         else (case list_at row 0 of
                 Inl e \<Rightarrow> Inl e
               | Inr r0 \<Rightarrow>
                  (case list_at row 1 of
                     Inl e \<Rightarrow> Inl e
                   | Inr r1 \<Rightarrow>
                       Inr (ws\<lparr>ws_logger := ws_logger ws @ [Debug_not_informative r0 r1]\<rparr>))))
      else write)"

text \<open>Lines 463-491: a row came back from \<open>parse_haplotypes\<close>. The state has
  \<^verbatim>\<open>n\<close> as it will be after this record.\<close>

definition handle_row ::
  "config \<Rightarrow> vcf_record \<Rightarrow> cell list \<Rightarrow> walk_state \<Rightarrow> py_error + walk_state" where
  "handle_row cfg var row0 ws =
     (case pop_cell row0 of
        Inl e \<Rightarrow> Inl e
      | Inr (no_calls, row1) \<Rightarrow>
     (case pop_cell row1 of
        Inl e \<Rightarrow> Inl e
      | Inr (all_phased, row2) \<Rightarrow>
     (case pop_cell row2 of
        Inl e \<Rightarrow> Inl e
      | Inr (informative, row) \<Rightarrow>
     (case (case cfg_max_no_calls cfg of
              None \<Rightarrow> Inr False
            | Some m \<Rightarrow> cell_gt no_calls m) of
        Inl e \<Rightarrow> Inl e
      | Inr True \<Rightarrow>
          (case list_at row 0 of
             Inl e \<Rightarrow> Inl e
           | Inr r0 \<Rightarrow>
              (case list_at row 1 of
                 Inl e \<Rightarrow> Inl e
               | Inr r1 \<Rightarrow>
                   Inr (ws\<lparr>ws_logger := ws_logger ws @ [Debug_too_many_no_calls r0 r1]\<rparr>)))
      | Inr False \<Rightarrow> route_row cfg var row all_phased informative ws))))"

text \<open>Lines 452-492: the body of the loop for one record. Every path through the body
  adds one to \<^verbatim>\<open>n\<close>.\<close>

definition region_step :: "config \<Rightarrow> vcf_record \<Rightarrow> walk_state \<Rightarrow> py_error + walk_state" where
  "region_step cfg var ws0 =
     (let ws1 = (if ws_n ws0 mod 100 = 0 \<and> ws_n ws0 \<noteq> 0
                 then ws0\<lparr>ws_logger := ws_logger ws0 @
                             [Info_progress (ws_n ws0) (ws_w ws0) (CHROM var) (POS var)]\<rparr>
                 else ws0);
          ws = ws1\<lparr>ws_n := ws_n ws1 + 1\<rparr>
      in
      if (case cfg_avoid_bed cfg of
            None \<Rightarrow> False
          | Some fetch \<Rightarrow> fetch (CHROM var) (POS var) (SPAN var))
      then Inr (ws\<lparr>ws_logger := ws_logger ws @ [Debug_exclude_bed]\<rparr>)
      else
        case parse_haplotypes var (cfg_samples cfg) (cfg_unrelateds cfg) (cfg_ped_file cfg)
               (cfg_gt_filter cfg) (ws_logger ws) (ws_reverse ws) (cfg_output_alleles cfg) False of
          Inl e \<Rightarrow> Inl e
        | Inr (None, rao, lg) \<Rightarrow> Inr (ws\<lparr>ws_reverse := rao, ws_logger := lg\<rparr>)
        | Inr (Some row, rao, lg) \<Rightarrow>
            handle_row cfg var row (ws\<lparr>ws_reverse := rao, ws_logger := lg\<rparr>))"

fun region_loop :: "config \<Rightarrow> vcf_record list \<Rightarrow> walk_state \<Rightarrow> py_error + walk_state" where
  "region_loop cfg [] ws = Inr ws"
| "region_loop cfg (var # vars) ws =
     (case region_step cfg var ws of
        Inl e \<Rightarrow> Inl e
      | Inr ws' \<Rightarrow> region_loop cfg vars ws')"

text \<open>The result is the output stream, \<^verbatim>\<open>reverse_alleles\<close> and the logger.\<close>

definition parse_region ::
  "config \<Rightarrow> vcf_reader \<Rightarrow> string \<Rightarrow> int \<Rightarrow> int \<Rightarrow> cell list list \<Rightarrow> (string \<rightharpoonup> bool)
     \<Rightarrow> log_event list
     \<Rightarrow> py_error + (cell list list \<times> (string \<rightharpoonup> bool) \<times> log_event list)" where
  "parse_region cfg vcf chrom start stop output reverse_alleles lg =
     (case region_loop cfg (set_region vcf chrom (start - 1) stop)
             \<lparr>ws_n = 0, ws_w = 0, ws_output = output, ws_reverse = reverse_alleles,
              ws_logger = lg @ [Info_region chrom start stop]\<rparr> of
        Inl e \<Rightarrow> Inl e
      | Inr ws \<Rightarrow> Inr (ws_output ws, ws_reverse ws, ws_logger ws))"

section \<open>vcf\_to\_hap\<close>

text \<open>Lines 494-504. \<^verbatim>\<open>RuntimeError\<close> when no record matches.\<close>

fun search_var_loop :: "vcf_record list \<Rightarrow> int \<Rightarrow> string \<Rightarrow> string \<Rightarrow> py_error + vcf_record" where
  "search_var_loop [] pos ref alt = Inl RuntimeError"
| "search_var_loop (var # vars) pos ref alt =
     (if (pos, ref, alt) \<in> set (DECOMPOSED_ALLELES var) then Inr var
      else search_var_loop vars pos ref alt)"

definition search_var ::
  "vcf_reader \<Rightarrow> string \<Rightarrow> int \<Rightarrow> string \<Rightarrow> string \<Rightarrow> py_error + vcf_record" where
  "search_var vcf chrom pos ref alt =
     (let span = pos + int (length ref) - 1
      in search_var_loop (set_region vcf chrom (pos - 1) span) pos ref alt)"

text \<open>Lines 380-387: every sample is in the VCF and in the PED file; the result is
  \<^verbatim>\<open>families\<close>.\<close>

fun check_samples ::
  "vcf_reader \<Rightarrow> ped_file \<Rightarrow> string list \<Rightarrow> string set \<Rightarrow> py_error + string set" where
  "check_samples vreader ped [] families = Inr families"
| "check_samples vreader ped (s # ss) families =
     (if s \<notin> set (header_samples vreader) then Inl RuntimeError
      else case ped s of
             None \<Rightarrow> Inl RuntimeError
           | Some ind \<Rightarrow> check_samples vreader ped ss (insert (fid ind) families))"

text \<open>Lines 388-393: the unrelated samples.\<close>

fun find_unrelateds :: "ped_file \<Rightarrow> string list \<Rightarrow> string set \<Rightarrow> string list \<Rightarrow> string list" where
  "find_unrelateds ped [] families unrelateds = unrelateds"
| "find_unrelateds ped (s # ss) families unrelateds =
     (case ped s of
        None \<Rightarrow> find_unrelateds ped ss families (unrelateds @ [s])
      | Some ind \<Rightarrow>
          if fid ind \<notin> families
          then find_unrelateds ped ss (insert (fid ind) families) (unrelateds @ [s])
          else find_unrelateds ped ss families unrelateds)"

text \<open>\<^verbatim>\<open>str.join(sep, xs)\<close>.\<close>

fun join_str :: "string \<Rightarrow> string list \<Rightarrow> string" where
  "join_str sep [] = []"
| "join_str sep [x] = x"
| "join_str sep (x # y # ys) = x @ sep @ join_str sep (y # ys)"

text \<open>Lines 409-416: the cells of the header line.\<close>

definition header_cols :: "bool \<Rightarrow> string list \<Rightarrow> gnomad_reader list \<Rightarrow> cell list" where
  "header_cols output_alleles samples gnomad_readers =
     map CStr
       ([''#CHROM'', ''POS'', ''ID'', ''REF'', ''ALT'', ''HAP'', ''N_IN_PHASE'', ''N_COMPAT'']
        @ (if output_alleles
           then map (\<lambda>x. x @ ''_Allele_1'' @ [CHR 0x09] @ x @ ''_Allele_2'') samples
           else samples)
        @ [''OTHER_N_ALLELES'', ''ALT_MAF'']
        @ (if gnomad_readers \<noteq> [] then [''gnomAD_AF'', ''gnomAD_AF_POPMAX'', ''POPMAX_pop'']
           else []))"

text \<open>Lines 404-407: \<^verbatim>\<open>index_row[2] += "|INDEX"\<close> and the three \<^verbatim>\<open>pop()\<close>.
  \<^verbatim>\<open>None\<close> is not subscriptable, and \<^verbatim>\<open>+=\<close> with a string needs a string.\<close>

definition mark_index_row :: "cell list option \<Rightarrow> py_error + cell list" where
  "mark_index_row r =
     (case r of
        None \<Rightarrow> Inl TypeError
      | Some row \<Rightarrow>
          (case list_at row 2 of
             Inl e \<Rightarrow> Inl e
           | Inr (CStr i) \<Rightarrow>
               (case pop_cell (row[2 := CStr (i @ ''|INDEX'')]) of
                  Inl e \<Rightarrow> Inl e
                | Inr (c1, row1) \<Rightarrow>
                   (case pop_cell row1 of
                      Inl e \<Rightarrow> Inl e
                    | Inr (c2, row2) \<Rightarrow>
                       (case pop_cell row2 of
                          Inl e \<Rightarrow> Inl e
                        | Inr (c3, row3) \<Rightarrow> Inr row3)))
           | Inr _ \<Rightarrow> Inl TypeError))"

text \<open>Lines 366-439, after the collaborators are built: \<open>vreader\<close>, \<open>ped_file\<close>,
  \<open>gt_filter\<close>, the frequency databases and the BED finder are in \<open>cfg\<close> and the
  arguments, and \<open>(v_chrom, v_pos, v_ref, v_alt)\<close> is what \<^verbatim>\<open>parse_var_string\<close> and
  \<^verbatim>\<open>int\<close> return for the variant string. \<open>cfg_unrelateds\<close> of the argument is not
  read: the function computes the unrelated samples. \<open>argv\<close> is \<^verbatim>\<open>sys.argv\<close>. The
  result is the output stream, \<^verbatim>\<open>reverse_allele_order\<close> and the logger.\<close>

definition vcf_to_hap ::
  "string list \<Rightarrow> config \<Rightarrow> vcf_reader \<Rightarrow> string \<times> int \<times> string \<times> string \<Rightarrow> int
     \<Rightarrow> py_error + (cell list list \<times> (string \<rightharpoonup> bool) \<times> log_event list)" where
  "vcf_to_hap argv cfg0 vreader variant flanks =
     (case variant of (v_chrom, v_pos, v_ref, v_alt) \<Rightarrow>
     (case check_samples vreader (cfg_ped_file cfg0) (cfg_samples cfg0) {} of
        Inl e \<Rightarrow> Inl e
      | Inr families \<Rightarrow>
     (let unrelateds = find_unrelateds (cfg_ped_file cfg0) (header_samples vreader) families [];
          cfg = cfg0\<lparr>cfg_unrelateds := unrelateds\<rparr>
      in
     (case search_var vreader v_chrom v_pos v_ref v_alt of
        Inl e \<Rightarrow> Inl e
      | Inr index_var \<Rightarrow>
          if length (ALLELES index_var) \<noteq> 2 then Inl RuntimeError
          else
     (case parse_haplotypes index_var (cfg_samples cfg) unrelateds (cfg_ped_file cfg)
             (cfg_gt_filter cfg) [Info_search_index] Map.empty False True of
        Inl e \<Rightarrow> Inl e
      | Inr (r, rao0, lg0) \<Rightarrow>
     (case mark_index_row r of
        Inl e \<Rightarrow> Inl e
      | Inr index_row \<Rightarrow>
     (let out0 = [[CStr (''#'' @ join_str '' '' argv)],
                  header_cols (cfg_output_alleles cfg) (cfg_samples cfg) (cfg_gnomad_readers cfg)];
          start = (if flanks < v_pos then v_pos - flanks else 1);
          stop = v_pos - 1
      in
     (case parse_region cfg vreader v_chrom start stop out0 rao0 lg0 of
        Inl e \<Rightarrow> Inl e
      | Inr (out1, rao1, lg1) \<Rightarrow>
     (case output_row (cfg_float cfg) index_row out1 index_var (cfg_gnomad_readers cfg) None
             lg1 None (cfg_gnomad_pop cfg) of
        Inl e \<Rightarrow> Inl e
      | Inr (foo, out2, lg2) \<Rightarrow>
          parse_region cfg vreader v_chrom (v_pos + 1) (v_pos + flanks) out2 rao1 lg2)))))))))"

text \<open>Line 275: the cells a row starts with.\<close>

definition variant_cells :: "vcf_record \<Rightarrow> cell list" where
  "variant_cells var =
     [CStr (CHROM var), CInt (POS var), CStr (ID var), CStr (REF var), CStr (ALT var)]"

section \<open>Example inputs\<close>

text \<open>A filter that passes every call, a biallelic SNV \<^verbatim>\<open>1:1000-A/G\<close> with given
  genotypes, and a pedigree of one trio.\<close>

definition all_ok :: gt_filter where
  "all_ok var s a = True"

definition snv_at :: "int \<Rightarrow> (string \<rightharpoonup> gt) \<Rightarrow> vcf_record" where
  "snv_at p g =
     \<lparr>CHROM = ''1'', POS = p, ID = ''rs1'', REF = ''A'', ALT = ''G'',
      ALLELES = [''A'', ''G''], SPAN = p, GT = g,
      DECOMPOSED_ALLELES = [(p, ''A'', ''G'')], INFO_FIELDS = Map.empty\<rparr>"

definition trio_gt :: "gt \<Rightarrow> gt \<Rightarrow> gt \<Rightarrow> (string \<rightharpoonup> gt)" where
  "trio_gt c f m = [''child'' \<mapsto> c, ''dad'' \<mapsto> f, ''mum'' \<mapsto> m]"

definition trio_ped :: ped_file where
  "trio_ped = [''child'' \<mapsto> \<lparr>fid = ''fam'', father = Some ''dad'', mother = Some ''mum''\<rparr>]"

definition gt01 :: gt where "gt01 = (Some 0, Some 1)"
definition gt00 :: gt where "gt00 = (Some 0, Some 0)"
definition gt11 :: gt where "gt11 = (Some 1, Some 1)"
definition gt_missing :: gt where "gt_missing = (None, None)"

text \<open>A frequency database that holds the variant \<^verbatim>\<open>A/G\<close> at the queried position
  with the given \<^verbatim>\<open>AF\<close>, \<^verbatim>\<open>AF_POPMAX\<close> and \<^verbatim>\<open>POPMAX\<close>, and one that holds no
  overlapping record.\<close>

definition db_with :: "string \<Rightarrow> string \<Rightarrow> string \<Rightarrow> gnomad_reader" where
  "db_with af p_af popmax var =
     [\<lparr>CHROM = CHROM var, POS = POS var, ID = ''.'', REF = ''A'', ALT = ''G'',
       ALLELES = [''A'', ''G''], SPAN = POS var, GT = Map.empty,
       DECOMPOSED_ALLELES = [(POS var, ''A'', ''G'')],
       INFO_FIELDS = [''AF'' \<mapsto> af, ''AF_POPMAX'' \<mapsto> p_af, ''POPMAX'' \<mapsto> popmax]\<rparr>]"

definition db_absent :: gnomad_reader where
  "db_absent var = []"

text \<open>The values of Python's \<^verbatim>\<open>float\<close> on the strings the examples use.\<close>

definition float_of_example :: "string \<Rightarrow> rat option" where
  "float_of_example s =
     (if s = ''0.5'' then Some (1 / 2)
      else if s = ''0.25'' then Some (1 / 4)
      else if s = ''0.001'' then Some (1 / 1000)
      else if s = ''3.98e-06'' then Some (398 / 100000000)
      else None)"

text \<open>A row of the engine for one sample, with HAP the reference allele.\<close>

definition row_hap_ref :: "cell list" where
  "row_hap_ref =
     [CStr ''1'', CInt 1200, CStr ''rs2'', CStr ''A'', CStr ''G'', CStr ''A'', CInt 1, CInt 1,
      CStr ''A|A'', CInt 0, CInt 0]"

section \<open>Helper lemmas\<close>

lemma gt_max_Inr: "gt_max sgt = Inr a \<Longrightarrow> \<exists>x y. sgt = (Some x, Some y) \<and> a = max x y"
  by (auto simp: gt_max_def split: prod.splits option.splits)

lemma transmitted_range: "transmitted f m = Some a \<Longrightarrow> a = 0 \<or> a = 1"
  by (auto simp: transmitted_def split: if_splits)

lemma transmitted_None_left [simp]: "transmitted None m = None"
  by (simp add: transmitted_def pgt_mem_def)

lemma phase_het_one_side:
  assumes "gt_max sgt = Inr a" and "ped s = Some ind"
    and "parent_gt gt_is_ok var (father ind) = Inr fgt"
    and "parent_gt gt_is_ok var (mother ind) = Inr mgt"
    and "(transmitted fgt mgt = None) \<noteq> (transmitted mgt fgt = None)"
  shows "\<exists>pat mat.
           phase_het gt_is_ok var ped index_var s sgt st = record_phased var index_var s pat mat st
         \<and> (pat = 0 \<and> mat = 1 \<or> pat = 1 \<and> mat = 0)
         \<and> (transmitted fgt mgt = Some pat \<and> transmitted mgt fgt = None
            \<or> transmitted fgt mgt = None \<and> transmitted mgt fgt = Some mat)"
proof -
  have ne: "\<not> (fgt = None \<and> mgt = None)"
    using assms(5) by (cases fgt; cases mgt) auto
  show ?thesis
  proof (cases "transmitted fgt mgt")
    case None
    then obtain m where m: "transmitted mgt fgt = Some m" using assms(5) by auto
    then have "m = 0 \<or> m = 1" by (rule transmitted_range)
    then show ?thesis using assms(1-4) None m ne
      by (auto simp: phase_het_def infer_other_def)
  next
    case (Some p)
    then have mn: "transmitted mgt fgt = None" using assms(5) by auto
    from Some have "p = 0 \<or> p = 1" by (rule transmitted_range)
    then show ?thesis using assms(1-4) Some mn ne
      by (auto simp: phase_het_def infer_other_def)
  qed
qed

lemma phase_het_de_novo:
  assumes "ped s = Some ind"
    and "parent_gt gt_is_ok var (father ind) = Inr fgt"
    and "parent_gt gt_is_ok var (mother ind) = Inr mgt"
    and "transmitted fgt mgt = Some a" and "transmitted mgt fgt = Some a"
  shows "phase_het gt_is_ok var ped index_var s (Some x, Some y) st =
           record_unphased var (Some x, Some y)
             (st\<lparr>logger := logger st @
                   [Warning_de_novo s (CHROM var) (POS var) (REF var) (ALT var)]\<rparr>)"
proof -
  have "\<not> (fgt = None \<and> mgt = None)" using assms(4) by (cases fgt) auto
  then show ?thesis using assms
    by (auto simp: phase_het_def infer_other_def gt_max_def)
qed

lemma sample_step_de_novo:
  assumes "gt_is_ok var s 0" and "gt_is_ok var s 1"
    and "GT var s = Some (Some x, Some y)" and "x \<noteq> y"
    and "x < length (ALLELES var)" and "y < length (ALLELES var)"
    and "ped s = Some ind"
    and "parent_gt gt_is_ok var (father ind) = Inr fgt"
    and "parent_gt gt_is_ok var (mother ind) = Inr mgt"
    and "transmitted fgt mgt = Some a" and "transmitted mgt fgt = Some a"
  shows "sample_step gt_is_ok var ped index_var s st =
           Inr (st\<lparr>sample_with_alt := sample_with_alt st \<or> x = 1 \<or> y = 1,
                   logger := logger st @
                     [Warning_de_novo s (CHROM var) (POS var) (REF var) (ALT var)],
                   calls := calls st @ [ALLELES var ! x @ ''/'' @ ALLELES var ! y],
                   alleles := alleles st @
                     [(ALLELES var ! x @ ''/'' @ ALLELES var ! y,
                       ALLELES var ! x @ ''/'' @ ALLELES var ! y)]\<rparr>)"
  using assms(1-6)
  by (auto simp: sample_step_def Let_def gt_has_none_def gt_mem_def
        phase_het_de_novo[where ped=ped and s=s, OF assms(7-11)]
        record_unphased_def join_alleles_def allele_at_def)

lemma sample_step_aip:
  assumes "sample_step gt_is_ok var ped index_var t st = Inr st'"
  shows "allele_in_phase st' = allele_in_phase st
       \<or> (\<exists>v. allele_in_phase st' = AList.update t v (allele_in_phase st))"
  using assms
  by (auto simp: sample_step_def Let_def record_no_call_def phase_het_def record_unphased_def
        record_phased_def
      split: if_splits option.splits sum.splits prod.splits)

lemma sample_step_aip_other:
  assumes "sample_step gt_is_ok var ped index_var t st = Inr st'" and "t \<noteq> s"
  shows "map_of (allele_in_phase st') s = map_of (allele_in_phase st) s"
  using sample_step_aip[OF assms(1)] assms(2) by (auto simp: update_conv')

lemmas trio_simps = snv_at_def trio_gt_def trio_ped_def all_ok_def gt01_def gt00_def gt11_def
  gt_missing_def

section \<open>The claims\<close>

text \<open>
  C1 (as amended). For a heterozygous sample, each parent's transmitted allele is
  assigned from that parent's genotype and the other parent's: the alternate allele
  exactly when the parent's genotype contains the alternate and either does not contain
  the reference or the other parent's genotype is usable and does not contain the
  alternate; the reference allele exactly when the parent's genotype is usable and does
  not contain the alternate; and the side is left undetermined when the parent's genotype
  is unusable, or contains both alleles while the other parent's genotype is unusable or
  contains the alternate.
\<close>

theorem transmitted_rule:
  "(transmitted fgt mgt = Some 1 \<longleftrightarrow>
      pgt_mem 1 fgt \<and> (\<not> pgt_mem 0 fgt \<or> (mgt \<noteq> None \<and> \<not> pgt_mem 1 mgt)))
 \<and> (transmitted fgt mgt = Some 0 \<longleftrightarrow> fgt \<noteq> None \<and> \<not> pgt_mem 1 fgt)
 \<and> (transmitted fgt mgt = None \<longleftrightarrow>
      fgt = None \<or> (pgt_mem 1 fgt \<and> pgt_mem 0 fgt \<and> (mgt = None \<or> pgt_mem 1 mgt)))"
  by (cases fgt; cases mgt) (auto simp: transmitted_def pgt_mem_def)

theorem transmitted_rule_witness:
  "transmitted (Some gt01) (Some gt00) = Some 1
 \<and> transmitted (Some gt00) (Some gt01) = Some 0
 \<and> transmitted (Some gt01) (Some gt01) = None"
  using transmitted_rule[of "Some gt01" "Some gt00"] transmitted_rule[of "Some gt00" "Some gt01"]
    transmitted_rule[of "Some gt01" "Some gt01"]
  by (simp add: pgt_mem_def gt_mem_def gt01_def gt00_def)

text \<open>
  C1 as stated fails: with both parents heterozygous and usable, the father's genotype is
  usable and the condition for the alternate fails, yet the reference is not assigned:
  the side stays undetermined.
\<close>

theorem transmitted_het_parents_counterexample:
  "Some gt01 \<noteq> None
 \<and> \<not> (pgt_mem 1 (Some gt01) \<and> (\<not> pgt_mem 0 (Some gt01) \<or> \<not> pgt_mem 1 (Some gt01)))
 \<and> transmitted (Some gt01) (Some gt01) \<noteq> Some 0"
  by (simp add: transmitted_def pgt_mem_def gt_mem_def gt01_def)

text \<open>
  C5. For a heterozygous sample where exactly one parental side's transmitted allele is
  determined, the other side is inferred as the complement (reference for alternate and
  alternate for reference), the determined side keeps its allele, the pair is what the
  phased call is built from, and for a heterozygous call of a biallelic variant both
  alleles of the pair are alleles of the sample's genotype.
\<close>

theorem one_side_complement:
  assumes "gt_max sgt = Inr a" and "ped s = Some ind"
    and "parent_gt gt_is_ok var (father ind) = Inr fgt"
    and "parent_gt gt_is_ok var (mother ind) = Inr mgt"
    and "(transmitted fgt mgt = None) \<noteq> (transmitted mgt fgt = None)"
  shows "\<exists>pat mat.
           phase_het gt_is_ok var ped index_var s sgt st = record_phased var index_var s pat mat st
         \<and> (pat = 0 \<and> mat = 1 \<or> pat = 1 \<and> mat = 0)
         \<and> (transmitted fgt mgt = Some pat \<and> transmitted mgt fgt = None
            \<or> transmitted fgt mgt = None \<and> transmitted mgt fgt = Some mat)
         \<and> (fst sgt \<noteq> snd sgt \<and> a < 2 \<longrightarrow> gt_mem pat sgt \<and> gt_mem mat sgt)"
proof -
  obtain pat mat where
    h: "phase_het gt_is_ok var ped index_var s sgt st = record_phased var index_var s pat mat st"
       "pat = 0 \<and> mat = 1 \<or> pat = 1 \<and> mat = 0"
       "transmitted fgt mgt = Some pat \<and> transmitted mgt fgt = None
            \<or> transmitted fgt mgt = None \<and> transmitted mgt fgt = Some mat"
    using phase_het_one_side[where ped=ped and s=s, OF assms] by blast
  obtain x y where xy: "sgt = (Some x, Some y)" "a = max x y"
    using gt_max_Inr[OF assms(1)] by blast
  have "fst sgt \<noteq> snd sgt \<and> a < 2 \<longrightarrow> gt_mem pat sgt \<and> gt_mem mat sgt"
    using xy h(2) by (auto simp: gt_mem_def)
  with h show ?thesis by blast
qed

theorem one_side_complement_witness:
  "\<exists>pat mat.
     phase_het all_ok (snv_at 1000 (trio_gt gt01 gt00 gt_missing)) trio_ped False ''child'' gt01
       (init_state Map.empty []) =
     record_phased (snv_at 1000 (trio_gt gt01 gt00 gt_missing)) False ''child'' pat mat
       (init_state Map.empty [])
   \<and> pat = 0 \<and> mat = 1 \<and> gt_mem pat gt01 \<and> gt_mem mat gt01"
proof -
  let ?v = "snv_at 1000 (trio_gt gt01 gt00 gt_missing)"
  let ?ind = "\<lparr>fid = ''fam'', father = Some ''dad'', mother = Some ''mum''\<rparr>"
  have h1: "gt_max gt01 = Inr 1" by (simp add: gt_max_def gt01_def)
  have h2: "trio_ped ''child'' = Some ?ind" by (simp add: trio_ped_def)
  have h3: "parent_gt all_ok ?v (father ?ind) = Inr (Some gt00)"
    by (simp add: parent_gt_def trio_simps gt_has_none_def gt_max_def)
  have h4: "parent_gt all_ok ?v (mother ?ind) = Inr None"
    by (simp add: parent_gt_def trio_simps gt_has_none_def)
  have t: "transmitted (Some gt00) None = Some 0"
    by (simp add: transmitted_def pgt_mem_def gt_mem_def gt00_def)
  have h5: "(transmitted (Some gt00) None = None) \<noteq> (transmitted None (Some gt00) = None)"
    using t by simp
  show ?thesis
    using one_side_complement[where ped=trio_ped and s="''child''", OF h1 h2 h3 h4 h5,
        of False "init_state Map.empty []"] t
    by (auto simp: gt01_def)
qed

lemma sample_loop_de_novo:
  assumes "gt_is_ok var s 0" and "gt_is_ok var s 1"
    and "GT var s = Some (Some x, Some y)" and "x \<noteq> y"
    and "x < length (ALLELES var)" and "y < length (ALLELES var)"
    and "ped s = Some ind"
    and "parent_gt gt_is_ok var (father ind) = Inr fgt"
    and "parent_gt gt_is_ok var (mother ind) = Inr mgt"
    and "transmitted fgt mgt = Some a" and "transmitted mgt fgt = Some a"
  shows "sample_loop gt_is_ok var ped index_var ss st = Inr stf
         \<Longrightarrow> map_of (allele_in_phase st) s = None
         \<Longrightarrow> map_of (allele_in_phase stf) s = None"
proof (induction ss arbitrary: st)
  case Nil
  then show ?case by simp
next
  case (Cons t ss)
  from Cons.prems(1) obtain st' where
    step: "sample_step gt_is_ok var ped index_var t st = Inr st'"
    and rest: "sample_loop gt_is_ok var ped index_var ss st' = Inr stf"
    by (auto split: sum.splits)
  have "map_of (allele_in_phase st') s = None"
  proof (cases "t = s")
    case True
    with step sample_step_de_novo[where ped=ped and s=s, OF assms, of index_var st] Cons.prems(2)
    show ?thesis by auto
  next
    case False
    with sample_step_aip_other[OF step] Cons.prems(2) show ?thesis by simp
  qed
  with Cons.IH rest show ?case by blast
qed

text \<open>
  C4. For a heterozygous sample whose paternal and maternal transmitted alleles are both
  determined and equal, the step of the loop for that sample appends the slash-joined
  genotype as the call and twice as the allele pair, leaves \<open>allele_in_phase\<close> and
  \<open>reverse_allele_order\<close> as they were, and logs exactly one warning; and after the
  whole loop over the samples the sample is not a key of \<open>allele_in_phase\<close>, so it is
  outside the phase tallies.
\<close>

theorem de_novo_unphased:
  assumes "gt_is_ok var s 0" and "gt_is_ok var s 1"
    and "GT var s = Some (Some x, Some y)" and "x \<noteq> y"
    and "x < length (ALLELES var)" and "y < length (ALLELES var)"
    and "ped s = Some ind"
    and "parent_gt gt_is_ok var (father ind) = Inr fgt"
    and "parent_gt gt_is_ok var (mother ind) = Inr mgt"
    and "transmitted fgt mgt = Some a" and "transmitted mgt fgt = Some a"
  shows "(\<exists>st'. sample_step gt_is_ok var ped index_var s st = Inr st'
           \<and> calls st' = calls st @ [ALLELES var ! x @ ''/'' @ ALLELES var ! y]
           \<and> alleles st' = alleles st @ [(ALLELES var ! x @ ''/'' @ ALLELES var ! y,
                                          ALLELES var ! x @ ''/'' @ ALLELES var ! y)]
           \<and> allele_in_phase st' = allele_in_phase st
           \<and> sample_no_calls st' = sample_no_calls st
           \<and> reverse_allele_order st' = reverse_allele_order st
           \<and> logger st' = logger st @
                [Warning_de_novo s (CHROM var) (POS var) (REF var) (ALT var)])
       \<and> (\<forall>stf. sample_loop gt_is_ok var ped index_var samples (init_state rao lg) = Inr stf
             \<longrightarrow> map_of (allele_in_phase stf) s = None)"
proof -
  have "map_of (allele_in_phase (init_state rao lg)) s = None"
    by (simp add: init_state_def)
  then have "\<forall>stf. sample_loop gt_is_ok var ped index_var samples (init_state rao lg) = Inr stf
             \<longrightarrow> map_of (allele_in_phase stf) s = None"
    using sample_loop_de_novo[where ped=ped and s=s, OF assms] by blast
  then show ?thesis
    using sample_step_de_novo[where ped=ped and s=s, OF assms, of index_var st] by simp
qed

theorem de_novo_unphased_witness:
  "\<exists>st'. sample_step all_ok (snv_at 1000 (trio_gt gt01 gt11 gt11)) trio_ped False ''child''
            (init_state Map.empty []) = Inr st'
        \<and> calls st' = [''A/G''] \<and> alleles st' = [(''A/G'', ''A/G'')]
        \<and> allele_in_phase st' = []
        \<and> logger st' = [Warning_de_novo ''child'' ''1'' 1000 ''A'' ''G'']"
proof -
  let ?v = "snv_at 1000 (trio_gt gt01 gt11 gt11)"
  let ?ind = "\<lparr>fid = ''fam'', father = Some ''dad'', mother = Some ''mum''\<rparr>"
  have h1: "all_ok ?v ''child'' 0" and h2: "all_ok ?v ''child'' 1"
    by (simp_all add: all_ok_def)
  have h3: "GT ?v ''child'' = Some (Some 0, Some 1)" by (simp add: trio_simps)
  have h4: "(0::nat) \<noteq> 1" by simp
  have h5: "0 < length (ALLELES ?v)" and h6: "1 < length (ALLELES ?v)"
    by (simp_all add: snv_at_def)
  have h7: "trio_ped ''child'' = Some ?ind" by (simp add: trio_ped_def)
  have h8: "parent_gt all_ok ?v (father ?ind) = Inr (Some gt11)"
    by (simp add: parent_gt_def trio_simps gt_has_none_def gt_max_def)
  have h9: "parent_gt all_ok ?v (mother ?ind) = Inr (Some gt11)"
    by (simp add: parent_gt_def trio_simps gt_has_none_def gt_max_def)
  have h10: "transmitted (Some gt11) (Some gt11) = Some 1"
    by (simp add: transmitted_def pgt_mem_def gt_mem_def gt11_def)
  show ?thesis
    using de_novo_unphased[where ped=trio_ped and s="''child''",
        OF h1 h2 h3 h4 h5 h6 h7 h8 h9 h10 h10, of False "init_state Map.empty []", THEN conjunct1]
    by (auto simp add: init_state_def snv_at_def)
qed

lemma compat_loop_count:
  "compat_loop var aip ncs p ss n = Inr m \<Longrightarrow>
     m = n + length (filter (\<lambda>s. map_of aip s = None
                \<and> (\<exists>a. p = Some a \<and> (s \<in> ncs \<or> pgt_mem a (GT var s)))) ss)"
proof (induction ss arbitrary: n)
  case Nil
  then show ?case by simp
next
  case (Cons s ss)
  show ?case
  proof (cases "map_of aip s = None \<and> p \<noteq> None")
    case False
    then have "compat_loop var aip ncs p ss n = Inr m"
      using Cons.prems by (auto split: option.splits)
    from Cons.IH[OF this] False show ?thesis by auto
  next
    case True
    then obtain a where a: "p = Some a" by auto
    from Cons.prems True a obtain g where g: "GT var s = Some g"
      by (auto split: option.splits)
    show ?thesis
    proof (cases "is_compat a g s ncs")
      case c: True
      then have "compat_loop var aip ncs p ss (n + 1) = Inr m"
        using Cons.prems True a g by simp
      from Cons.IH[OF this] c True a g show ?thesis
        by (auto simp: is_compat_def pgt_mem_def)
    next
      case c: False
      then have "compat_loop var aip ncs p ss n = Inr m"
        using Cons.prems True a g by simp
      from Cons.IH[OF this] c True a g show ?thesis
        by (auto simp: is_compat_def pgt_mem_def)
    qed
  qed
qed

lemma phase_tally_shape: "\<exists>n p. phase_tally phased = (n, n, p)"
  by (simp add: phase_tally_def Let_def)

lemma parse_haplotypes_Some:
  assumes "parse_haplotypes var samples unrelateds ped gt_is_ok lg rao output_alleles index_var
             = Inr (Some row, rao', lg')"
  shows "\<exists>st counts n_in_phase p_allele n_compat hap.
           length (ALLELES var) = 2
         \<and> sample_loop gt_is_ok var ped index_var samples (init_state rao lg) = Inr st
         \<and> sample_with_alt st
         \<and> phase_tally (map snd (allele_in_phase st)) = (n_in_phase, n_in_phase, p_allele)
         \<and> compat_loop var (allele_in_phase st) (sample_no_calls st) p_allele samples n_in_phase
             = Inr n_compat
         \<and> hap_cell var n_in_phase p_allele = Inr hap
         \<and> row = [CStr (CHROM var), CInt (POS var), CStr (ID var), CStr (REF var),
                   CStr (ALT var), hap, CInt (int n_in_phase), CInt (int n_compat)]
                  @ sample_cells output_alleles st @ background_cells counts
                  @ [CBool (map snd (allele_in_phase st) \<noteq> []),
                     CBool (length (map snd (allele_in_phase st)) = length samples),
                     CInt (int (card (sample_no_calls st)))]
         \<and> rao' = reverse_allele_order st \<and> lg' = logger st"
proof -
  from assms obtain st where
    st: "sample_loop gt_is_ok var ped index_var samples (init_state rao lg) = Inr st"
    and len: "length (ALLELES var) = 2"
    by (auto simp: parse_haplotypes_def split: if_splits sum.splits)
  obtain n p where t: "phase_tally (map snd (allele_in_phase st)) = (n, n, p)"
    using phase_tally_shape by blast
  show ?thesis
    using assms st len t
    by (auto simp: parse_haplotypes_def Let_def split: if_splits sum.splits)
qed

lemma record_unphased_effect:
  assumes "record_unphased var sgt st = Inr st'"
  shows "\<exists>c. join_alleles ''/'' var sgt = Inr c
           \<and> st' = st\<lparr>calls := calls st @ [c], alleles := alleles st @ [(c, c)]\<rparr>"
  using assms by (auto simp: record_unphased_def split: sum.splits)

lemma record_phased_effect:
  assumes "record_phased var index_var s pat mat st = Inr st'"
  shows "\<exists>r a x y. st' = st\<lparr>reverse_allele_order := r,
                         allele_in_phase := AList.update s a (allele_in_phase st),
                         calls := calls st @ [x @ ''|'' @ y],
                         alleles := alleles st @ [(x, y)]\<rparr>"
  using assms by (auto simp: record_phased_def Let_def split: sum.splits)

lemma phase_het_cases:
  assumes "phase_het gt_is_ok var ped index_var s sgt st = Inr st'"
  shows "record_unphased var sgt st = Inr st'
       \<or> record_unphased var sgt
            (st\<lparr>logger := logger st @
                  [Warning_de_novo s (CHROM var) (POS var) (REF var) (ALT var)]\<rparr>) = Inr st'
       \<or> (\<exists>pat mat. record_phased var index_var s pat mat st = Inr st')"
proof -
  from assms obtain a ind fgt mgt where
    h: "gt_max sgt = Inr a" "ped s = Some ind"
       "parent_gt gt_is_ok var (father ind) = Inr fgt"
       "parent_gt gt_is_ok var (mother ind) = Inr mgt"
    unfolding phase_het_def by (auto split: sum.splits option.splits)
  show ?thesis
    using assms h
    by (auto simp: phase_het_def Let_def split: if_splits prod.splits)
qed


lemma sample_step_cases:
  assumes "sample_step gt_is_ok var ped index_var t st = Inr st'"
  shows "(is_no_call gt_is_ok var t \<and> st' = record_no_call t st)
       \<or> (\<not> is_no_call gt_is_ok var t \<and>
           (\<exists>sgt st1. GT var t = Some sgt
              \<and> st1 = st\<lparr>sample_with_alt := sample_with_alt st \<or> gt_mem 1 sgt\<rparr>
              \<and> ((\<exists>a c x y. sgt = (Some a, Some a)
                     \<and> st' = st1\<lparr>calls := calls st1 @ [c], alleles := alleles st1 @ [(x, y)],
                                  allele_in_phase := AList.update t a (allele_in_phase st1)\<rparr>)
                 \<or> (fst sgt \<noteq> snd sgt
                     \<and> phase_het gt_is_ok var ped index_var t sgt st1 = Inr st'))))"
proof (cases "\<not> gt_is_ok var t 0 \<or> \<not> gt_is_ok var t 1")
  case True
  then show ?thesis using assms by (auto simp: sample_step_def is_no_call_def)
next
  case ok: False
  then obtain sgt where g: "GT var t = Some sgt"
    using assms by (auto simp: sample_step_def split: option.splits)
  show ?thesis
  proof (cases "fst sgt = snd sgt \<and> gt_has_none sgt")
    case True
    then show ?thesis using assms ok g by (auto simp: sample_step_def is_no_call_def)
  next
    case nn: False
    have nc: "\<not> is_no_call gt_is_ok var t" using ok g nn by (simp add: is_no_call_def)
    have st1: "(if gt_mem 1 sgt then st\<lparr>sample_with_alt := True\<rparr> else st)
               = st\<lparr>sample_with_alt := sample_with_alt st \<or> gt_mem 1 sgt\<rparr>"
      by simp
    show ?thesis
    proof (cases "fst sgt = snd sgt")
      case True
      with nn obtain a where a: "sgt = (Some a, Some a)"
        by (cases sgt) (auto simp: gt_has_none_def)
      show ?thesis using assms ok g nc a
        by (auto simp: sample_step_def Let_def gt_has_none_def split: sum.splits) blast+
    next
      case False
      then have "phase_het gt_is_ok var ped index_var t sgt
                   (if gt_mem 1 sgt then st\<lparr>sample_with_alt := True\<rparr> else st) = Inr st'"
        using assms ok g nn by (simp add: sample_step_def Let_def)
      then have "phase_het gt_is_ok var ped index_var t sgt
                   (st\<lparr>sample_with_alt := sample_with_alt st \<or> gt_mem 1 sgt\<rparr>) = Inr st'"
        by (simp only: st1)
      with nc g False show ?thesis by blast
    qed
  qed
qed

lemma sample_step_no_calls:
  assumes "sample_step gt_is_ok var ped index_var t st = Inr st'"
  shows "sample_no_calls st' =
           (if is_no_call gt_is_ok var t then insert t (sample_no_calls st)
            else sample_no_calls st)"
  using sample_step_cases[OF assms]
  by (auto simp: record_no_call_def dest!: phase_het_cases record_unphased_effect
        record_phased_effect)

lemma sample_step_no_call_aip:
  assumes "sample_step gt_is_ok var ped index_var t st = Inr st'"
    and "is_no_call gt_is_ok var t"
  shows "allele_in_phase st' = allele_in_phase st"
  using sample_step_cases[OF assms(1)] assms(2) by (auto simp: record_no_call_def)


lemma sample_loop_no_calls:
  "sample_loop gt_is_ok var ped index_var ss st = Inr st' \<Longrightarrow>
     sample_no_calls st' = sample_no_calls st \<union> {s \<in> set ss. is_no_call gt_is_ok var s}"
proof (induction ss arbitrary: st)
  case Nil
  then show ?case by simp
next
  case (Cons t ss)
  from Cons.prems obtain st1 where
    step: "sample_step gt_is_ok var ped index_var t st = Inr st1"
    and rest: "sample_loop gt_is_ok var ped index_var ss st1 = Inr st'"
    by (auto split: sum.splits)
  from Cons.IH[OF rest] sample_step_no_calls[OF step] show ?case by auto
qed

lemma sample_loop_no_call_aip:
  "sample_loop gt_is_ok var ped index_var ss st = Inr st' \<Longrightarrow> is_no_call gt_is_ok var s \<Longrightarrow>
     map_of (allele_in_phase st') s = map_of (allele_in_phase st) s"
proof (induction ss arbitrary: st)
  case Nil
  then show ?case by simp
next
  case (Cons t ss)
  from Cons.prems(1) obtain st1 where
    step: "sample_step gt_is_ok var ped index_var t st = Inr st1"
    and rest: "sample_loop gt_is_ok var ped index_var ss st1 = Inr st'"
    by (auto split: sum.splits)
  have "map_of (allele_in_phase st1) s = map_of (allele_in_phase st) s"
  proof (cases "t = s")
    case True
    with sample_step_no_call_aip[OF step] Cons.prems(2) show ?thesis by simp
  next
    case False
    with sample_step_aip_other[OF step] show ?thesis by simp
  qed
  with Cons.IH[OF rest Cons.prems(2)] show ?case by simp
qed

lemma phase_tally_le: "phase_tally phased = (n, m, p) \<Longrightarrow> n = m"
  by (auto simp: phase_tally_def Let_def split: if_splits)

text \<open>
  C3. For every row the engine produces, \<open>N_COMPAT \<ge> N_IN_PHASE\<close> (cells 7 and 6);
  when no dominant phase allele exists (a tie, or no phased sample) \<open>N_COMPAT\<close> equals
  \<open>N_IN_PHASE\<close>, so no unphased sample adds to it; when a dominant allele exists,
  \<open>N_COMPAT\<close> is \<open>N_IN_PHASE\<close> plus one for every sample of interest that is not
  phased and is a no-call or carries the dominant allele; and a no-call sample is never
  phased, so each one is counted.
\<close>

theorem compat_counts:
  assumes "parse_haplotypes var samples unrelateds ped gt_is_ok lg rao output_alleles index_var
             = Inr (Some row, rao', lg')"
  shows "\<exists>st n_in_phase n_compat p_allele.
           sample_loop gt_is_ok var ped index_var samples (init_state rao lg) = Inr st
         \<and> phase_tally (map snd (allele_in_phase st)) = (n_in_phase, n_in_phase, p_allele)
         \<and> row ! 6 = CInt (int n_in_phase) \<and> row ! 7 = CInt (int n_compat)
         \<and> n_in_phase \<le> n_compat
         \<and> (p_allele = None \<longrightarrow> n_compat = n_in_phase)
         \<and> (\<forall>a. p_allele = Some a \<longrightarrow>
               n_compat = n_in_phase +
                 length (filter (\<lambda>s. map_of (allele_in_phase st) s = None
                            \<and> (is_no_call gt_is_ok var s \<or> pgt_mem a (GT var s))) samples))
         \<and> (\<forall>s. is_no_call gt_is_ok var s \<longrightarrow> map_of (allele_in_phase st) s = None)"
proof -
  from parse_haplotypes_Some[OF assms] obtain st counts n_in_phase p_allele n_compat hap where
    loop: "sample_loop gt_is_ok var ped index_var samples (init_state rao lg) = Inr st"
    and tally: "phase_tally (map snd (allele_in_phase st)) = (n_in_phase, n_in_phase, p_allele)"
    and compat: "compat_loop var (allele_in_phase st) (sample_no_calls st) p_allele samples
                   n_in_phase = Inr n_compat"
    and row: "row = [CStr (CHROM var), CInt (POS var), CStr (ID var), CStr (REF var),
                   CStr (ALT var), hap, CInt (int n_in_phase), CInt (int n_compat)]
                  @ sample_cells output_alleles st @ background_cells counts
                  @ [CBool (map snd (allele_in_phase st) \<noteq> []),
                     CBool (length (map snd (allele_in_phase st)) = length samples),
                     CInt (int (card (sample_no_calls st)))]"
    by blast
  have snc: "sample_no_calls st = {s \<in> set samples. is_no_call gt_is_ok var s}"
    using sample_loop_no_calls[OF loop] by (simp add: init_state_def)
  have unph: "\<forall>s. is_no_call gt_is_ok var s \<longrightarrow> map_of (allele_in_phase st) s = None"
    using sample_loop_no_call_aip[OF loop] by (simp add: init_state_def)
  have cnt: "n_compat = n_in_phase +
      length (filter (\<lambda>s. map_of (allele_in_phase st) s = None
                \<and> (\<exists>a. p_allele = Some a
                     \<and> (s \<in> sample_no_calls st \<or> pgt_mem a (GT var s)))) samples)"
    by (rule compat_loop_count[OF compat])
  have f: "\<And>a. filter (\<lambda>s. map_of (allele_in_phase st) s = None
                \<and> (\<exists>a'. Some a = Some a'
                     \<and> (s \<in> sample_no_calls st \<or> pgt_mem a' (GT var s)))) samples
         = filter (\<lambda>s. map_of (allele_in_phase st) s = None
                     \<and> (is_no_call gt_is_ok var s \<or> pgt_mem a (GT var s))) samples"
    by (rule filter_cong) (auto simp: snc)
  have r6: "row ! 6 = CInt (int n_in_phase)" and r7: "row ! 7 = CInt (int n_compat)"
    by (simp_all add: row)
  have none: "p_allele = None \<longrightarrow> n_compat = n_in_phase" using cnt by auto
  have some: "\<forall>a. p_allele = Some a \<longrightarrow>
               n_compat = n_in_phase +
                 length (filter (\<lambda>s. map_of (allele_in_phase st) s = None
                            \<and> (is_no_call gt_is_ok var s \<or> pgt_mem a (GT var s))) samples)"
    using cnt f by auto
  have le: "n_in_phase \<le> n_compat" using cnt by simp
  show ?thesis using loop tally r6 r7 le none some unph by blast
qed

text \<open>
  C10. When at least one sample is phased and the phased samples split evenly between
  reference-in-phase and alternate-in-phase, the row's HAP cell is \<open>?\<close> while
  \<open>N_IN_PHASE\<close> is the tied per-allele count, the maximum of the two equal tallies, and
  it is strictly positive.
\<close>

theorem tie_reports_unknown:
  assumes "parse_haplotypes var samples unrelateds ped gt_is_ok lg rao output_alleles index_var
             = Inr (Some row, rao', lg')"
    and "sample_loop gt_is_ok var ped index_var samples (init_state rao lg) = Inr st"
    and "phased = map snd (allele_in_phase st)"
    and "phased \<noteq> []"
    and "count_list phased 0 = length phased - count_list phased 0"
  shows "row ! 5 = CStr ''?''
       \<and> row ! 6 = CInt (int (count_list phased 0))
       \<and> row ! 6 = CInt (int (max (count_list phased 0) (length phased - count_list phased 0)))
       \<and> 0 < count_list phased 0"
proof -
  from parse_haplotypes_Some[OF assms(1)] assms(2)
  obtain counts n_in_phase p_allele n_compat hap where
    tally: "phase_tally phased = (n_in_phase, n_in_phase, p_allele)"
    and hap: "hap_cell var n_in_phase p_allele = Inr hap"
    and row: "row = [CStr (CHROM var), CInt (POS var), CStr (ID var), CStr (REF var),
                   CStr (ALT var), hap, CInt (int n_in_phase), CInt (int n_compat)]
                  @ sample_cells output_alleles st @ background_cells counts
                  @ [CBool (map snd (allele_in_phase st) \<noteq> []),
                     CBool (length (map snd (allele_in_phase st)) = length samples),
                     CInt (int (card (sample_no_calls st)))]"
    by (auto simp: assms(3))
  have p: "p_allele = None" and n: "n_in_phase = count_list phased 0"
    using tally assms(4,5) by (auto simp: phase_tally_def Let_def)
  have pos: "0 < count_list phased 0"
  proof (rule ccontr)
    assume "\<not> 0 < count_list phased 0"
    then have "length phased = 0" using assms(5) by simp
    with assms(4) show False by simp
  qed
  have "hap = CStr ''?''" using hap p by (simp add: hap_cell_def)
  then show ?thesis using row n pos assms(5) by simp
qed


lemmas engine_defs = parse_haplotypes_def init_state_def sample_step_def phase_het_def
  parent_gt_def transmitted_def infer_other_def record_phased_def record_unphased_def
  record_no_call_def join_alleles_def allele_at_def gt_max_def gt_mem_def pgt_mem_def
  gt_has_none_def flag_def dd_read_def phase_tally_def is_compat_def hap_cell_def
  sample_cells_def background_cells_def count_unrelated_def Let_def

lemma example_no_call_row: "parse_haplotypes (snv_at 1000 ((trio_gt gt01 gt01 gt00)(''sib'' \<mapsto> gt_missing)))
     [''child'', ''sib''] [] trio_ped all_ok [] Map.empty False False
   = Inr (Some [CStr ''1'', CInt 1000, CStr ''rs1'', CStr ''A'', CStr ''G'', CStr ''G'',
                CInt 1, CInt 2, CStr ''G|A'', CStr ''NoCall'', CInt 0, CInt 0,
                CBool True, CBool False, CInt 1],
          [''child'' \<mapsto> False], [])"
  by (simp add: engine_defs trio_simps)


theorem compat_counts_witness:
  "\<exists>st p_allele.
     sample_loop all_ok (snv_at 1000 ((trio_gt gt01 gt01 gt00)(''sib'' \<mapsto> gt_missing)))
       trio_ped False [''child'', ''sib''] (init_state Map.empty []) = Inr st
   \<and> phase_tally (map snd (allele_in_phase st)) = (1, 1, p_allele)
   \<and> (\<forall>a. p_allele = Some a \<longrightarrow>
         2 = 1 + length (filter (\<lambda>s. map_of (allele_in_phase st) s = None
                     \<and> (is_no_call all_ok
                           (snv_at 1000 ((trio_gt gt01 gt01 gt00)(''sib'' \<mapsto> gt_missing))) s
                         \<or> pgt_mem a
                             (GT (snv_at 1000 ((trio_gt gt01 gt01 gt00)(''sib'' \<mapsto> gt_missing))) s)))
                   [''child'', ''sib'']))
   \<and> map_of (allele_in_phase st) ''sib'' = None"
proof -
  let ?v = "snv_at 1000 ((trio_gt gt01 gt01 gt00)(''sib'' \<mapsto> gt_missing))"
  have nc: "is_no_call all_ok ?v ''sib''"
    by (simp add: is_no_call_def trio_simps gt_has_none_def)
  from compat_counts[OF example_no_call_row] obtain st n_in_phase n_compat p_allele where
    h: "sample_loop all_ok ?v trio_ped False [''child'', ''sib''] (init_state Map.empty []) = Inr st"
       "phase_tally (map snd (allele_in_phase st)) = (n_in_phase, n_in_phase, p_allele)"
       "CInt 1 = CInt (int n_in_phase)" "CInt 2 = CInt (int n_compat)"
       "\<forall>a. p_allele = Some a \<longrightarrow>
               n_compat = n_in_phase +
                 length (filter (\<lambda>s. map_of (allele_in_phase st) s = None
                            \<and> (is_no_call all_ok ?v s \<or> pgt_mem a (GT ?v s)))
                          [''child'', ''sib''])"
       "\<forall>s. is_no_call all_ok ?v s \<longrightarrow> map_of (allele_in_phase st) s = None"
    by auto
  from h(3,4) have "n_in_phase = 1" "n_compat = 2" by simp_all
  with h nc show ?thesis by blast
qed

lemma example_tie_loop:
  "sample_loop all_ok (snv_at 1000 ((trio_gt gt01 gt01 gt00)(''sib'' \<mapsto> gt00)))
     trio_ped False [''child'', ''sib''] (init_state Map.empty []) =
   Inr \<lparr>calls = [''G|A'', ''A|A''], alleles = [(''G'', ''A''), (''A'', ''A'')],
        allele_in_phase = [(''child'', 1), (''sib'', 0)], sample_no_calls = {},
        sample_with_alt = True, reverse_allele_order = [''child'' \<mapsto> False], logger = []\<rparr>"
  by (simp add: engine_defs trio_simps)

lemma example_tie_row: "parse_haplotypes (snv_at 1000 ((trio_gt gt01 gt01 gt00)(''sib'' \<mapsto> gt00)))
     [''child'', ''sib''] [] trio_ped all_ok [] Map.empty False False
   = Inr (Some [CStr ''1'', CInt 1000, CStr ''rs1'', CStr ''A'', CStr ''G'', CStr ''?'',
                CInt 1, CInt 1, CStr ''G|A'', CStr ''A|A'', CInt 0, CInt 0,
                CBool True, CBool True, CInt 0],
          [''child'' \<mapsto> False], [])"
  by (simp add: engine_defs trio_simps)

theorem tie_reports_unknown_witness:
  "[CStr ''1'', CInt 1000, CStr ''rs1'', CStr ''A'', CStr ''G'', CStr ''?'',
    CInt 1, CInt 1, CStr ''G|A'', CStr ''A|A'', CInt 0, CInt 0,
    CBool True, CBool True, CInt 0] ! 5 = CStr ''?''
   \<and> (0::nat) < count_list [1, 0] 0"
proof -
  have a4: "map snd [(''child'', 1::nat), (''sib'', 0)] \<noteq> []" by simp
  have a5: "count_list (map snd [(''child'', 1::nat), (''sib'', 0)]) 0
            = length (map snd [(''child'', 1::nat), (''sib'', 0)])
              - count_list (map snd [(''child'', 1::nat), (''sib'', 0)]) 0"
    by simp
  show ?thesis
    using tie_reports_unknown[OF example_tie_row example_tie_loop _ a4 a5] by simp
qed






lemma parse_haplotypes_early:
  assumes "length (ALLELES var) \<noteq> 2 \<or> length (ALLELES var ! 0) \<noteq> length (ALLELES var ! 1)"
  shows "\<exists>ev. parse_haplotypes var samples unrelateds ped gt_is_ok lg rao output_alleles index_var
              = Inr (None, rao, lg @ [ev])"
  using assms by (auto simp: parse_haplotypes_def)

lemma parse_haplotypes_late:
  assumes "\<not> (length (ALLELES var) \<noteq> 2 \<or> length (ALLELES var ! 0) \<noteq> length (ALLELES var ! 1))"
  shows "parse_haplotypes var samples unrelateds ped gt_is_ok lg rao output_alleles index_var =
     (case sample_loop gt_is_ok var ped index_var samples (init_state rao lg) of
          Inl e \<Rightarrow> Inl e
        | Inr st \<Rightarrow>
            if \<not> sample_with_alt st then
              Inr (None, reverse_allele_order st,
                   logger st @ [Debug_no_alt (CHROM var) (POS var)])
            else
              case unrelated_loop gt_is_ok var unrelateds
                     \<lparr>hom_ref = 0, het = 0, hom_alt = 0\<rparr> of
                Inl e \<Rightarrow> Inl e
              | Inr counts \<Rightarrow>
                  let phased = map snd (allele_in_phase st);
                      (n_in_phase, n0, p_allele) = phase_tally phased
                  in case compat_loop var (allele_in_phase st) (sample_no_calls st)
                            p_allele samples n0 of
                       Inl e \<Rightarrow> Inl e
                     | Inr n_compat \<Rightarrow>
                        (case hap_cell var n_in_phase p_allele of
                           Inl e \<Rightarrow> Inl e
                         | Inr hap \<Rightarrow>
                             Inr (Some ([CStr (CHROM var), CInt (POS var), CStr (ID var),
                                         CStr (REF var), CStr (ALT var), hap,
                                         CInt (int n_in_phase), CInt (int n_compat)]
                                        @ sample_cells output_alleles st
                                        @ background_cells counts
                                        @ [CBool (phased \<noteq> []),
                                           CBool (length phased = length samples),
                                           CInt (int (card (sample_no_calls st)))]),
                                  reverse_allele_order st, logger st)))"
  using assms by (simp add: parse_haplotypes_def)







lemma flag_dd_read [simp]: "flag (dd_read m s) x = flag m x"
  by (simp add: flag_def dd_read_def split: option.splits)

lemma flag_upd [simp]: "flag (m(s \<mapsto> b)) x = (if x = s then b else flag m x)"
  by (simp add: flag_def)

lemma record_phased_memory:
  assumes "record_phased var index_var s pat mat st = Inr st'"
  shows "reverse_allele_order st' =
           dd_read (if index_var \<and> mat = 1 \<and> pat = 0
                    then (reverse_allele_order st)(s \<mapsto> True) else reverse_allele_order st) s"
  using assms by (auto simp: record_phased_def Let_def split: sum.splits)

lemma record_phased_flags:
  assumes "record_phased var index_var s pat mat st = Inr st'"
  shows "flag (reverse_allele_order st') x =
           (if x = s \<and> index_var \<and> mat = 1 \<and> pat = 0 then True
            else flag (reverse_allele_order st) x)"
  unfolding record_phased_memory[OF assms] by simp

lemma record_phased_call:
  assumes "record_phased var index_var s pat mat st = Inr st'"
  shows "\<exists>first second.
           (first, second) = (if flag (reverse_allele_order st') s then (mat, pat) else (pat, mat))
         \<and> first < length (ALLELES var) \<and> second < length (ALLELES var)
         \<and> calls st' = calls st @ [ALLELES var ! first @ ''|'' @ ALLELES var ! second]
         \<and> alleles st' = alleles st @ [(ALLELES var ! first, ALLELES var ! second)]
         \<and> allele_in_phase st' = AList.update s first (allele_in_phase st)"
proof -
  define r1 where "r1 = (if index_var \<and> mat = 1 \<and> pat = 0
                then (reverse_allele_order st)(s \<mapsto> True) else reverse_allele_order st)"
  have f: "flag (reverse_allele_order st') s = flag r1 s"
    using assms by (auto simp: record_phased_def Let_def r1_def split: sum.splits)
  show ?thesis
    using assms unfolding f
    by (auto simp: record_phased_def Let_def r1_def allele_at_def split: sum.splits if_splits)
qed

lemma sample_step_flags:
  assumes "sample_step gt_is_ok var ped False t st = Inr st'"
  shows "flag (reverse_allele_order st') x = flag (reverse_allele_order st) x"
proof -
  from sample_step_cases[OF assms] show ?thesis
  proof (elim disjE conjE exE)
    assume "st' = record_no_call t st"
    then show ?thesis by (simp add: record_no_call_def)
  next
    fix sgt st1 a c x y
    assume "st1 = st\<lparr>sample_with_alt := sample_with_alt st \<or> gt_mem 1 sgt\<rparr>"
      and "st' = st1\<lparr>calls := calls st1 @ [c], alleles := alleles st1 @ [(x, y)],
                      allele_in_phase := AList.update t a (allele_in_phase st1)\<rparr>"
    then show ?thesis by simp
  next
    fix sgt st1
    assume st1: "st1 = st\<lparr>sample_with_alt := sample_with_alt st \<or> gt_mem 1 sgt\<rparr>"
      and ph: "phase_het gt_is_ok var ped False t sgt st1 = Inr st'"
    from phase_het_cases[OF ph] show ?thesis
    proof (elim disjE exE)
      assume "record_unphased var sgt st1 = Inr st'"
      from record_unphased_effect[OF this] st1 show ?thesis by auto
    next
      assume "record_unphased var sgt
            (st1\<lparr>logger := logger st1 @
                  [Warning_de_novo t (CHROM var) (POS var) (REF var) (ALT var)]\<rparr>) = Inr st'"
      from record_unphased_effect[OF this] st1 show ?thesis by auto
    next
      fix pat mat
      assume "record_phased var False t pat mat st1 = Inr st'"
      from record_phased_flags[OF this] st1 show ?thesis by simp
    qed
  qed
qed

lemma sample_loop_flags:
  "sample_loop gt_is_ok var ped False ss st = Inr st' \<Longrightarrow>
     flag (reverse_allele_order st') x = flag (reverse_allele_order st) x"
proof (induction ss arbitrary: st)
  case Nil
  then show ?case by simp
next
  case (Cons t ss)
  from Cons.prems obtain st1 where
    step: "sample_step gt_is_ok var ped False t st = Inr st1"
    and rest: "sample_loop gt_is_ok var ped False ss st1 = Inr st'"
    by (auto split: sum.splits)
  from Cons.IH[OF rest] sample_step_flags[OF step] show ?case by simp
qed

lemma parse_haplotypes_result_memory:
  assumes "parse_haplotypes var samples unrelateds ped gt_is_ok lg rao output_alleles index_var
             = Inr (r, rao', lg')"
  shows "rao' = rao
       \<or> (\<exists>st. sample_loop gt_is_ok var ped index_var samples (init_state rao lg) = Inr st
              \<and> rao' = reverse_allele_order st)"
proof (cases "length (ALLELES var) \<noteq> 2 \<or> length (ALLELES var ! 0) \<noteq> length (ALLELES var ! 1)")
  case True
  then have "\<exists>ev. parse_haplotypes var samples unrelateds ped gt_is_ok lg rao output_alleles
               index_var = Inr (None, rao, lg @ [ev])"
    by (rule parse_haplotypes_early)
  with assms show ?thesis by auto
next
  case False
  note late = parse_haplotypes_late[OF False]
  from assms obtain st where
    loop: "sample_loop gt_is_ok var ped index_var samples (init_state rao lg) = Inr st"
    unfolding late by (auto split: sum.splits)
  obtain n p where t: "phase_tally (map snd (allele_in_phase st)) = (n, n, p)"
    using phase_tally_shape by blast
  have "rao' = reverse_allele_order st"
    using assms loop t unfolding late
    by (auto simp: Let_def split: if_splits sum.splits)
  with loop show ?thesis by blast
qed

lemma parse_haplotypes_flags:
  assumes "parse_haplotypes var samples unrelateds ped gt_is_ok lg rao output_alleles False
             = Inr (r, rao', lg')"
  shows "flag rao' x = flag rao x"
  using parse_haplotypes_result_memory[OF assms] sample_loop_flags[of gt_is_ok var ped samples]
  by (auto simp: init_state_def)

lemma route_row_reverse:
  assumes "route_row cfg var row all_phased informative ws = Inr ws'"
  shows "ws_reverse ws' = ws_reverse ws"
  using assms
  by (auto simp: route_row_def Let_def split: if_splits sum.splits prod.splits)

lemma handle_row_reverse:
  assumes "handle_row cfg var row ws = Inr ws'"
  shows "ws_reverse ws' = ws_reverse ws"
  using assms
  by (auto simp: handle_row_def split: sum.splits prod.splits bool.splits
        dest: route_row_reverse)

lemma region_step_flags:
  assumes "region_step cfg var ws = Inr ws'"
  shows "flag (ws_reverse ws') x = flag (ws_reverse ws) x"
proof -
  define ws1 where "ws1 = (if ws_n ws mod 100 = 0 \<and> ws_n ws \<noteq> 0
                 then ws\<lparr>ws_logger := ws_logger ws @
                             [Info_progress (ws_n ws) (ws_w ws) (CHROM var) (POS var)]\<rparr>
                 else ws)"
  define ws2 where "ws2 = ws1\<lparr>ws_n := ws_n ws1 + 1\<rparr>"
  have r2: "ws_reverse ws2 = ws_reverse ws"
    by (simp_all add: ws1_def ws2_def)
  show ?thesis
  proof (cases "case cfg_avoid_bed cfg of None \<Rightarrow> False
                | Some fetch \<Rightarrow> fetch (CHROM var) (POS var) (SPAN var)")
    case True
    then have "ws' = ws2\<lparr>ws_logger := ws_logger ws2 @ [Debug_exclude_bed]\<rparr>"
      using assms by (simp add: region_step_def Let_def ws1_def ws2_def)
    then show ?thesis using r2 by simp
  next
    case False
    let ?ph = "parse_haplotypes var (cfg_samples cfg) (cfg_unrelateds cfg) (cfg_ped_file cfg)
               (cfg_gt_filter cfg) (ws_logger ws2) (ws_reverse ws2) (cfg_output_alleles cfg) False"
    from assms False obtain r rao' lg' where ph: "?ph = Inr (r, rao', lg')"
      by (cases ?ph) (auto simp: region_step_def Let_def ws1_def ws2_def)
    have fl: "flag rao' x = flag (ws_reverse ws2) x"
      by (rule parse_haplotypes_flags[OF ph])
    have "ws_reverse ws' = rao'"
    proof (cases r)
      case None
      then have "ws' = ws2\<lparr>ws_reverse := rao', ws_logger := lg'\<rparr>"
        using assms False ph by (simp add: region_step_def Let_def ws1_def ws2_def)
      then show ?thesis by simp
    next
      case (Some row)
      then have "handle_row cfg var row (ws2\<lparr>ws_reverse := rao', ws_logger := lg'\<rparr>) = Inr ws'"
        using assms False ph by (simp add: region_step_def Let_def ws1_def ws2_def)
      from handle_row_reverse[OF this] show ?thesis by simp
    qed
    with fl r2 show ?thesis by simp
  qed
qed

lemma region_loop_flags:
  "region_loop cfg vars ws = Inr ws' \<Longrightarrow> flag (ws_reverse ws') x = flag (ws_reverse ws) x"
proof (induction vars arbitrary: ws)
  case Nil
  then show ?case by simp
next
  case (Cons var vars)
  from Cons.prems obtain ws1 where
    step: "region_step cfg var ws = Inr ws1"
    and rest: "region_loop cfg vars ws1 = Inr ws'"
    by (auto split: sum.splits)
  from Cons.IH[OF rest] region_step_flags[OF step] show ?case by simp
qed

lemma parse_region_flags:
  assumes "parse_region cfg vcf chrom start stop output rao lg = Inr (out', rao', lg')"
  shows "flag rao' x = flag rao x"
  using assms region_loop_flags[of cfg "set_region vcf chrom (start - 1) stop"]
  by (auto simp: parse_region_def split: sum.splits)

text \<open>
  C2. A call of the engine that is not the index-variant call leaves the orientation flag
  of every sample as it was, and so does a whole walk of a region (which calls the engine
  with \<open>index_var = False\<close> only). Where a phase is established, the flag of the
  sample becomes true exactly when the call is the index-variant call and the phase has
  maternal = alternate and paternal = reference; no other sample's flag changes; and the
  call is reported maternal-first when the sample's flag is true and paternal-first
  otherwise, whatever the maternal and paternal alleles are.
\<close>

theorem orientation_memory:
  "(parse_haplotypes var samples unrelateds ped gt_is_ok lg rao output_alleles False
      = Inr (r, rao', lg') \<longrightarrow> (\<forall>x. flag rao' x = flag rao x))
 \<and> (parse_region cfg vcf chrom start stop output rao lg = Inr (out', rao'', lg'')
      \<longrightarrow> (\<forall>x. flag rao'' x = flag rao x))
 \<and> (record_phased var index_var s pat mat st = Inr st' \<longrightarrow>
      (\<forall>x. flag (reverse_allele_order st') x =
             (if x = s \<and> index_var \<and> mat = 1 \<and> pat = 0 then True
              else flag (reverse_allele_order st) x))
    \<and> (\<exists>first second.
          (first, second) = (if flag (reverse_allele_order st') s then (mat, pat) else (pat, mat))
        \<and> first < length (ALLELES var) \<and> second < length (ALLELES var)
        \<and> calls st' = calls st @ [ALLELES var ! first @ ''|'' @ ALLELES var ! second]
        \<and> alleles st' = alleles st @ [(ALLELES var ! first, ALLELES var ! second)]
        \<and> allele_in_phase st' = AList.update s first (allele_in_phase st)))"
proof (intro conjI impI allI)
  fix x
  assume "parse_haplotypes var samples unrelateds ped gt_is_ok lg rao output_alleles False
            = Inr (r, rao', lg')"
  then show "flag rao' x = flag rao x" by (rule parse_haplotypes_flags)
next
  fix x
  assume "parse_region cfg vcf chrom start stop output rao lg = Inr (out', rao'', lg'')"
  then show "flag rao'' x = flag rao x" by (rule parse_region_flags)
next
  fix x
  assume "record_phased var index_var s pat mat st = Inr st'"
  then show "flag (reverse_allele_order st') x =
             (if x = s \<and> index_var \<and> mat = 1 \<and> pat = 0 then True
              else flag (reverse_allele_order st) x)"
    by (rule record_phased_flags)
next
  assume "record_phased var index_var s pat mat st = Inr st'"
  then show "\<exists>first second.
          (first, second) = (if flag (reverse_allele_order st') s then (mat, pat) else (pat, mat))
        \<and> first < length (ALLELES var) \<and> second < length (ALLELES var)
        \<and> calls st' = calls st @ [ALLELES var ! first @ ''|'' @ ALLELES var ! second]
        \<and> alleles st' = alleles st @ [(ALLELES var ! first, ALLELES var ! second)]
        \<and> allele_in_phase st' = AList.update s first (allele_in_phase st)"
    by (rule record_phased_call)
qed


lemma example_index_phased:
  "record_phased (snv_at 1000 (trio_gt gt01 gt00 gt01)) True ''child'' 0 1
     (init_state Map.empty []) =
   Inr \<lparr>calls = [''G|A''], alleles = [(''G'', ''A'')], allele_in_phase = [(''child'', 1)],
        sample_no_calls = {}, sample_with_alt = False,
        reverse_allele_order = [''child'' \<mapsto> True], logger = []\<rparr>"
  by (simp add: engine_defs trio_simps)

theorem orientation_memory_witness:
  "flag [''child'' \<mapsto> False] ''child'' = flag Map.empty ''child''
 \<and> flag [''child'' \<mapsto> True] ''child''
 \<and> (\<exists>first second. (first, second) = (1::nat, 0::nat)
       \<and> [''G|A''] = [] @ [[''A'', ''G''] ! first @ ''|'' @ [''A'', ''G''] ! second])"
proof -
  let ?v = "snv_at 1000 (trio_gt gt01 gt00 gt01)"
  let ?st' = "\<lparr>calls = [''G|A''], alleles = [(''G'', ''A'')], allele_in_phase = [(''child'', 1)],
        sample_no_calls = {}, sample_with_alt = False,
        reverse_allele_order = [''child'' \<mapsto> True], logger = []\<rparr>"
  have a: "flag [''child'' \<mapsto> False] ''child'' = flag Map.empty ''child''"
    using orientation_memory[THEN conjunct1, rule_format, OF example_no_call_row] .
  have b: "flag (reverse_allele_order ?st') ''child'' = True"
    using orientation_memory[THEN conjunct2, THEN conjunct2, rule_format, OF example_index_phased,
        THEN conjunct1, rule_format, of "''child''"]
    by simp
  have c: "\<exists>first second.
          (first, second) = (if flag (reverse_allele_order ?st') ''child'' then (1, 0) else (0, 1))
        \<and> first < length (ALLELES ?v) \<and> second < length (ALLELES ?v)
        \<and> calls ?st' = calls (init_state Map.empty []) @
                          [ALLELES ?v ! first @ ''|'' @ ALLELES ?v ! second]
        \<and> alleles ?st' = alleles (init_state Map.empty []) @
                          [(ALLELES ?v ! first, ALLELES ?v ! second)]
        \<and> allele_in_phase ?st' = AList.update ''child'' first
                                    (allele_in_phase (init_state Map.empty []))"
    using orientation_memory[THEN conjunct2, THEN conjunct2, rule_format, OF example_index_phased,
        THEN conjunct2] .
  from c b have "\<exists>first second. (first, second) = (1::nat, 0::nat)
       \<and> [''G|A''] = [] @ [[''A'', ''G''] ! first @ ''|'' @ [''A'', ''G''] ! second]"
    by (simp add: init_state_def snv_at_def)
  with a b show ?thesis by simp
qed






lemmas annot_defs = output_row_def search_gnomad_def info_at_def list_at_def min_af_filter_def
  other_af_def other_af_check_def keep_max_def db_with_def db_absent_def float_of_example_def
  row_hap_ref_def snv_at_def



lemma example_search_present:
  "search_gnomad (snv_at 1200 Map.empty) (db_with ''0.5'' ''0.5'' ''nfe'') ''POPMAX''
     = Inr (''0.5'', ''0.5'', ''nfe'')"
  by (simp add: annot_defs)

lemma example_mixed_databases:
  "output_row float_of_example row_hap_ref [] (snv_at 1200 Map.empty)
     [db_with ''0.5'' ''0.5'' ''nfe'', db_absent] (Some (1 / 100)) [] (Some [''child''])
     ''POPMAX''
   = Inr (0, [], [Debug_search_gnomad ''1'' 1200 ''A'' ''G'', Debug_skip_absent_ref])"
  by (simp add: annot_defs)




text \<open>
  C9. With two databases whose alternate frequencies are \<^verbatim>\<open>3.98e-06\<close> and
  \<^verbatim>\<open>0.25\<close>, the appended fields are those of the first: line 132 compares the two
  strings, and \<^verbatim>\<open>"3.98e-06" < "0.25"\<close> is false, although 0.25 is the larger number.
\<close>

theorem max_af_compares_strings:
  "output_row float_of row_hap_ref [] (snv_at 1200 Map.empty)
     [db_with ''3.98e-06'' ''1e-05'' ''nfe'', db_with ''0.25'' ''0.3'' ''afr''] None []
     None ''POPMAX''
   = Inr (1, [row_hap_ref @ [CStr ''3.98e-06'', CStr ''1e-05'', CStr ''nfe'']],
          [Debug_search_gnomad ''1'' 1200 ''A'' ''G''])
 \<and> float_of_example ''3.98e-06'' = Some (398 / 100000000)
 \<and> float_of_example ''0.25'' = Some (1 / 4)
 \<and> (398 / 100000000 :: rat) < 1 / 4"
  by (simp add: annot_defs)

lemma parse_haplotypes_row_shape:
  assumes "parse_haplotypes var samples unrelateds ped gt_is_ok lg rao output_alleles index_var
             = Inr (Some row, rao', lg')"
  shows "\<exists>rest a b c. row = variant_cells var @ rest @ [a, b, c]"
proof -
  from parse_haplotypes_Some[OF assms] obtain st counts n_in_phase n_compat hap where
    "row = [CStr (CHROM var), CInt (POS var), CStr (ID var), CStr (REF var),
                   CStr (ALT var), hap, CInt (int n_in_phase), CInt (int n_compat)]
                  @ sample_cells output_alleles st @ background_cells counts
                  @ [CBool (map snd (allele_in_phase st) \<noteq> []),
                     CBool (length (map snd (allele_in_phase st)) = length samples),
                     CInt (int (card (sample_no_calls st)))]"
    by blast
  then have "row = variant_cells var
      @ ([hap, CInt (int n_in_phase), CInt (int n_compat)]
          @ sample_cells output_alleles st @ background_cells counts)
      @ [CBool (map snd (allele_in_phase st) \<noteq> []),
                     CBool (length (map snd (allele_in_phase st)) = length samples),
                     CInt (int (card (sample_no_calls st)))]"
    by (simp add: variant_cells_def)
  then show ?thesis by blast
qed

lemma pop_cell_snoc [simp]: "pop_cell (xs @ [c]) = Inr (c, xs)"
  by (simp add: pop_cell_def)

lemma pop_cell_snoc3:
  "pop_cell (xs @ [a, b, c]) = Inr (c, xs @ [a, b])"
  "pop_cell (xs @ [a, b]) = Inr (b, xs @ [a])"
  using pop_cell_snoc[of "xs @ [a, b]" c] pop_cell_snoc[of "xs @ [a]" b] by simp_all

lemma output_row_output:
  assumes "output_row float_of row output var readers min_af lg samples pop = Inr (k, out, lg')"
  shows "out = output \<or> (\<exists>extra. out = output @ [row @ extra])"
  using assms
  by (auto simp: output_row_def split: if_splits sum.splits prod.splits option.splits)

lemma route_row_output:
  assumes "route_row cfg var row all_phased informative ws = Inr ws'"
  shows "ws_output ws' = ws_output ws \<or> (\<exists>extra. ws_output ws' = ws_output ws @ [row @ extra])"
proof -
  let ?w = "output_row (cfg_float cfg) row (ws_output ws) var (cfg_gnomad_readers cfg)
                    (cfg_min_other_allele_freq cfg) (ws_logger ws) (Some (cfg_samples cfg))
                    (cfg_gnomad_pop cfg)"
  show ?thesis
  proof (cases ?w)
    case (Inl e)
    then show ?thesis using assms
      by (auto simp: route_row_def Let_def split: if_splits sum.splits)
  next
    case (Inr res)
    obtain k out lg' where res: "res = (k, out, lg')" by (cases res) auto
    from output_row_output[OF Inr[unfolded res]]
    have o: "out = ws_output ws \<or> (\<exists>extra. out = ws_output ws @ [row @ extra])" .
    show ?thesis using assms Inr res o
      by (auto simp: route_row_def Let_def split: if_splits sum.splits)
  qed
qed

lemma handle_row_output:
  assumes "handle_row cfg var (vc @ rest @ [a, b, c]) ws = Inr ws'"
  shows "ws_output ws' = ws_output ws
       \<or> (\<exists>extra. ws_output ws' = ws_output ws @ [vc @ rest @ extra])"
proof -
  have p1: "pop_cell (vc @ rest @ [a, b, c]) = Inr (c, vc @ rest @ [a, b])"
    using pop_cell_snoc3(1)[of "vc @ rest" a b c] by simp
  have p2: "pop_cell (vc @ rest @ [a, b]) = Inr (b, vc @ rest @ [a])"
    using pop_cell_snoc3(2)[of "vc @ rest" a b] by simp
  have p3: "pop_cell (vc @ rest @ [a]) = Inr (a, vc @ rest)"
    using pop_cell_snoc[of "vc @ rest" a] by simp
  from assms have
    "ws_output ws' = ws_output ws
     \<or> route_row cfg var (vc @ rest) b a ws = Inr ws'"
    by (auto simp: handle_row_def p1 p2 p3 split: sum.splits bool.splits)
  then show ?thesis
  proof
    assume "ws_output ws' = ws_output ws"
    then show ?thesis by simp
  next
    assume "route_row cfg var (vc @ rest) b a ws = Inr ws'"
    from route_row_output[OF this] show ?thesis by auto
  qed
qed


lemma region_step_output:
  assumes "region_step cfg var ws = Inr ws'"
  shows "ws_output ws' = ws_output ws
       \<or> (\<exists>rest. ws_output ws' = ws_output ws @ [variant_cells var @ rest])"
proof -
  define ws1 where "ws1 = (if ws_n ws mod 100 = 0 \<and> ws_n ws \<noteq> 0
                 then ws\<lparr>ws_logger := ws_logger ws @
                             [Info_progress (ws_n ws) (ws_w ws) (CHROM var) (POS var)]\<rparr>
                 else ws)"
  define ws2 where "ws2 = ws1\<lparr>ws_n := ws_n ws1 + 1\<rparr>"
  have o2: "ws_output ws2 = ws_output ws"
    by (simp_all add: ws1_def ws2_def)
  show ?thesis
  proof (cases "case cfg_avoid_bed cfg of None \<Rightarrow> False
                | Some fetch \<Rightarrow> fetch (CHROM var) (POS var) (SPAN var)")
    case True
    then have "ws' = ws2\<lparr>ws_logger := ws_logger ws2 @ [Debug_exclude_bed]\<rparr>"
      using assms by (simp add: region_step_def Let_def ws1_def ws2_def)
    then show ?thesis using o2 by simp
  next
    case False
    let ?ph = "parse_haplotypes var (cfg_samples cfg) (cfg_unrelateds cfg) (cfg_ped_file cfg)
               (cfg_gt_filter cfg) (ws_logger ws2) (ws_reverse ws2) (cfg_output_alleles cfg) False"
    from assms False obtain r rao' lg' where ph: "?ph = Inr (r, rao', lg')"
      by (cases ?ph) (auto simp: region_step_def Let_def ws1_def ws2_def)
    show ?thesis
    proof (cases r)
      case None
      then have "ws' = ws2\<lparr>ws_reverse := rao', ws_logger := lg'\<rparr>"
        using assms False ph by (simp add: region_step_def Let_def ws1_def ws2_def)
      then show ?thesis using o2 by simp
    next
      case (Some row)
      then have h: "handle_row cfg var row (ws2\<lparr>ws_reverse := rao', ws_logger := lg'\<rparr>) = Inr ws'"
        using assms False ph by (simp add: region_step_def Let_def ws1_def ws2_def)
      from parse_haplotypes_row_shape[OF ph[unfolded Some]] obtain rest a b c where
        row: "row = variant_cells var @ rest @ [a, b, c]" by blast
      from handle_row_output[OF h[unfolded row]]
      have "ws_output ws' = ws_output ws2
          \<or> (\<exists>extra. ws_output ws' = ws_output ws2 @ [variant_cells var @ rest @ extra])"
        by simp
      then show ?thesis
      proof
        assume "ws_output ws' = ws_output ws2"
        then show ?thesis using o2 by simp
      next
        assume "\<exists>extra. ws_output ws' = ws_output ws2 @ [variant_cells var @ rest @ extra]"
        then obtain extra where
          "ws_output ws' = ws_output ws @ [variant_cells var @ (rest @ extra)]"
          using o2 by auto
        then show ?thesis by blast
      qed
    qed
  qed
qed

lemma region_loop_output:
  "region_loop cfg vars ws = Inr ws' \<Longrightarrow>
     \<exists>vs rows. subseq vs vars \<and> ws_output ws' = ws_output ws @ rows
        \<and> length rows = length vs
        \<and> (\<forall>i < length vs. \<exists>rest. rows ! i = variant_cells (vs ! i) @ rest)"
proof (induction vars arbitrary: ws)
  case Nil
  then show ?case by simp
next
  case (Cons var vars)
  from Cons.prems obtain ws1 where
    step: "region_step cfg var ws = Inr ws1"
    and rest: "region_loop cfg vars ws1 = Inr ws'"
    by (auto split: sum.splits)
  from Cons.IH[OF rest] obtain vs rows where
    ih: "subseq vs vars" "ws_output ws' = ws_output ws1 @ rows" "length rows = length vs"
        "\<forall>i < length vs. \<exists>rest. rows ! i = variant_cells (vs ! i) @ rest"
    by blast
  from region_step_output[OF step] show ?case
  proof
    assume "ws_output ws1 = ws_output ws"
    with ih have "subseq vs (var # vars) \<and> ws_output ws' = ws_output ws @ rows
        \<and> length rows = length vs
        \<and> (\<forall>i < length vs. \<exists>rest. rows ! i = variant_cells (vs ! i) @ rest)"
      by (simp add: list_emb_Cons)
    then show ?thesis by blast
  next
    assume "\<exists>r. ws_output ws1 = ws_output ws @ [variant_cells var @ r]"
    then obtain r where r: "ws_output ws1 = ws_output ws @ [variant_cells var @ r]" by blast
    have "\<forall>i < length (var # vs). \<exists>rest.
            ((variant_cells var @ r) # rows) ! i = variant_cells ((var # vs) ! i) @ rest"
    proof (intro allI impI)
      fix i assume "i < length (var # vs)"
      then show "\<exists>rest. ((variant_cells var @ r) # rows) ! i
                         = variant_cells ((var # vs) ! i) @ rest"
        using ih(4) by (cases i) auto
    qed
    with ih r have "subseq (var # vs) (var # vars)
        \<and> ws_output ws' = ws_output ws @ ((variant_cells var @ r) # rows)
        \<and> length ((variant_cells var @ r) # rows) = length (var # vs)
        \<and> (\<forall>i < length (var # vs). \<exists>rest.
            ((variant_cells var @ r) # rows) ! i = variant_cells ((var # vs) ! i) @ rest)"
      by simp
    then show ?thesis by blast
  qed
qed

lemma parse_region_output:
  assumes "parse_region cfg vcf chrom start stop output rao lg = Inr (out', rao', lg')"
  shows "\<exists>vs rows. subseq vs (set_region vcf chrom (start - 1) stop)
        \<and> out' = output @ rows \<and> length rows = length vs
        \<and> (\<forall>i < length vs. \<exists>rest. rows ! i = variant_cells (vs ! i) @ rest)"
proof -
  from assms obtain ws' where
    loop: "region_loop cfg (set_region vcf chrom (start - 1) stop)
             \<lparr>ws_n = 0, ws_w = 0, ws_output = output, ws_reverse = rao,
              ws_logger = lg @ [Info_region chrom start stop]\<rparr> = Inr ws'"
    and out: "out' = ws_output ws'"
    by (auto simp: parse_region_def split: sum.splits)
  from region_loop_output[OF loop] out show ?thesis by simp
qed

lemma subseq_set_subset: "subseq vs ws \<Longrightarrow> set vs \<subseteq> set ws"
  by (induction rule: list_emb.induct) auto

lemma subseq_sorted_map:
  "subseq vs ws \<Longrightarrow> sorted (map f ws) \<Longrightarrow> sorted (map f vs)"
proof (induction rule: list_emb.induct)
  case (list_emb_Nil ys)
  then show ?case by simp
next
  case (list_emb_Cons xs ys y)
  then show ?case by simp
next
  case (list_emb_Cons2 x y xs ys)
  then have "set xs \<subseteq> set ys" using subseq_set_subset by blast
  with list_emb_Cons2 show ?case by auto
qed

lemma reader_loop_no_threshold:
  "reader_loop float_of row var readers None samples pop mx lg = Inr (res, lg') \<Longrightarrow> res \<noteq> None"
  by (induction readers arbitrary: mx lg)
     (auto simp: min_af_filter_def split: sum.splits)

lemma output_row_no_threshold:
  assumes "output_row float_of row output var readers None lg samples pop = Inr (k, out, lg')"
  shows "\<exists>extra. out = output @ [row @ extra]"
proof (cases "readers = []")
  case True
  then show ?thesis using assms by (auto simp: output_row_def)
next
  case False
  let ?lg = "lg @ [Debug_search_gnomad (CHROM var) (POS var) (REF var) (ALT var)]"
  from assms False obtain res where
    loop: "reader_loop float_of row var readers None samples pop (''.'', ''.'', ''.'') ?lg
             = Inr (res, lg')"
    by (auto simp: output_row_def split: sum.splits prod.splits option.splits)
  from reader_loop_no_threshold[OF loop] obtain a b c where "res = Some (a, b, c)" by auto
  then show ?thesis using assms False loop by (auto simp: output_row_def)
qed

lemma mark_index_row_shape:
  assumes "parse_haplotypes var samples unrelateds ped gt_is_ok lg rao output_alleles index_var
             = Inr (r, rao', lg')"
    and "mark_index_row r = Inr index_row"
  shows "\<exists>rest. index_row = (variant_cells var)[2 := CStr (ID var @ ''|INDEX'')] @ rest"
proof -
  from assms(2) obtain row where r: "r = Some row"
    by (cases r) (auto simp: mark_index_row_def)
  from parse_haplotypes_row_shape[OF assms(1)[unfolded r]] obtain rest a b c where
    row: "row = variant_cells var @ rest @ [a, b, c]" by blast
  have l2: "list_at row 2 = Inr (CStr (ID var))"
    by (simp add: row list_at_def variant_cells_def)
  have upd: "row[2 := CStr (ID var @ ''|INDEX'')]
             = (variant_cells var)[2 := CStr (ID var @ ''|INDEX'')] @ rest @ [a, b, c]"
    by (simp add: row variant_cells_def)
  let ?vc = "(variant_cells var)[2 := CStr (ID var @ ''|INDEX'')]"
  have p1: "pop_cell (?vc @ rest @ [a, b, c]) = Inr (c, ?vc @ rest @ [a, b])"
    using pop_cell_snoc3(1)[of "?vc @ rest" a b c] by simp
  have p2: "pop_cell (?vc @ rest @ [a, b]) = Inr (b, ?vc @ rest @ [a])"
    using pop_cell_snoc3(2)[of "?vc @ rest" a b] by simp
  have p3: "pop_cell (?vc @ rest @ [a]) = Inr (a, ?vc @ rest)"
    using pop_cell_snoc[of "?vc @ rest" a] by simp
  have "mark_index_row r = Inr (?vc @ rest)"
    unfolding mark_index_row_def r by (simp add: l2 upd p1 p2 p3)
  with assms(2) show ?thesis by auto
qed

end
